theory Spec2Isabelle
  imports Main "HOL-Library.Sublist"
begin

section \<open>Shared conventions\<close>

text \<open>
  Timestamps (JavaScript \<^verbatim>\<open>Date\<close> objects and \<^verbatim>\<open>Date.now()\<close> readings) are
  integers: milliseconds since the epoch. Comparing two \<^verbatim>\<open>Date\<close>s with \<^verbatim>\<open><\<close>
  compares these numbers. Every clock reading of the source is an explicit argument of
  the function that makes it. Identifiers, tokens and hashes produced by external
  generators (\<^verbatim>\<open>uuid()\<close>, \<^verbatim>\<open>randomUUID()\<close>, \<^verbatim>\<open>bcrypt.hash\<close>, the IP hash) are
  explicit arguments as well. Strings are ASCII character lists.
\<close>

type_synonym date = int

text \<open>JavaScript truthiness of a string: only the empty string is falsy.\<close>

definition truthy :: "string \<Rightarrow> bool" where
  "truthy s = (s \<noteq> [])"

text \<open>Truthiness of an optional string (\<^verbatim>\<open>undefined\<close>, \<^verbatim>\<open>null\<close> and \<^verbatim>\<open>""\<close> are falsy).\<close>

fun truthy_opt :: "string option \<Rightarrow> bool" where
  "truthy_opt None = False"
| "truthy_opt (Some s) = truthy s"

text \<open>\<^verbatim>\<open>String.prototype.toLowerCase\<close> on ASCII text.\<close>

definition lower_char :: "char \<Rightarrow> char" where
  "lower_char c =
     (let n = (of_char c :: nat) in if 65 \<le> n \<and> n \<le> 90 then char_of (n + 32) else c)"

definition toLowerCase :: "string \<Rightarrow> string" where
  "toLowerCase s = map lower_char s"

section \<open>Database types (lib/db/types.ts)\<close>

record user =
  id_user :: string
  email :: string
  passwordHash :: string
  name :: string
  emailVerified :: "date option"
  emailVerificationToken :: "string option"
  emailVerificationTokenExpiresAt :: "date option"
  passwordResetToken :: "string option"
  passwordResetTokenExpiresAt :: "date option"
  createdAt :: date
  updatedAt :: date

text \<open>Optional properties of the input objects: \<open>None\<close> is an absent property.\<close>

record createUserInput =
  c_email :: string
  c_passwordHash :: string
  c_name :: string
  c_emailVerificationToken :: "string option"
  c_emailVerificationTokenExpiresAt :: "date option"

text \<open>
  In \<^verbatim>\<open>UpdateUserInput\<close> the outer \<open>None\<close> is an absent property and \<open>Some None\<close> is an
  explicit \<^verbatim>\<open>null\<close>.
\<close>

record updateUserInput =
  upd_email :: "string option"
  upd_passwordHash :: "string option"
  upd_name :: "string option"
  upd_emailVerified :: "date option option"
  upd_emailVerificationToken :: "string option option"
  upd_emailVerificationTokenExpiresAt :: "date option option"
  upd_passwordResetToken :: "string option option"
  upd_passwordResetTokenExpiresAt :: "date option option"

definition noUpdate :: updateUserInput where
  "noUpdate = \<lparr>upd_email = None, upd_passwordHash = None, upd_name = None,
     upd_emailVerified = None, upd_emailVerificationToken = None,
     upd_emailVerificationTokenExpiresAt = None, upd_passwordResetToken = None,
     upd_passwordResetTokenExpiresAt = None\<rparr>"

record tokenData =
  td_userId :: string
  td_token :: string
  td_expiresAt :: date

record userForAuth =
  fa_id :: string
  fa_email :: string
  fa_name :: string
  fa_passwordHash :: string
  fa_emailVerified :: "date option"

section \<open>In-memory adapter (lib/db/adapters/memory.ts)\<close>

text \<open>The four module-level maps of the adapter.\<close>

record store =
  users :: "string \<rightharpoonup> user"
  emailIndex :: "string \<rightharpoonup> string"
  verificationTokenIndex :: "string \<rightharpoonup> string"
  passwordResetTokenIndex :: "string \<rightharpoonup> string"

definition emptyStore :: store where
  "emptyStore = \<lparr>users = Map.empty, emailIndex = Map.empty,
     verificationTokenIndex = Map.empty, passwordResetTokenIndex = Map.empty\<rparr>"

text \<open>The only exception the adapter raises: \<^verbatim>\<open>Error(`User not found: ${id}`)\<close>.\<close>

datatype adapter_error = UserNotFound string

definition findUserByEmail :: "store \<Rightarrow> string \<Rightarrow> userForAuth option" where
  "findUserByEmail st em =
     (let normalizedEmail = toLowerCase em in
      case emailIndex st normalizedEmail of
        None \<Rightarrow> None
      | Some userId \<Rightarrow>
          if \<not> truthy userId then None
          else (case users st userId of
                  None \<Rightarrow> None
                | Some u \<Rightarrow> Some \<lparr>fa_id = id_user u, fa_email = email u, fa_name = name u,
                             fa_passwordHash = passwordHash u,
                             fa_emailVerified = emailVerified u\<rparr>))"

definition findUserById :: "store \<Rightarrow> string \<Rightarrow> user option" where
  "findUserById st i = users st i"

text \<open>
  \<^verbatim>\<open>createUser\<close>: \<open>newId\<close> is the value of \<^verbatim>\<open>uuid()\<close>, \<open>now\<close> of \<^verbatim>\<open>new Date()\<close>.
  The body has no \<^verbatim>\<open>throw\<close>; the result is a sum only so that failure can be spoken of.
\<close>

definition createUser ::
  "store \<Rightarrow> string \<Rightarrow> date \<Rightarrow> createUserInput \<Rightarrow> adapter_error + (user \<times> store)" where
  "createUser st newId now d =
     (let normalizedEmail = toLowerCase (c_email d);
          u = \<lparr>id_user = newId, email = normalizedEmail, passwordHash = c_passwordHash d,
               name = c_name d, emailVerified = None,
               emailVerificationToken =
                 (if truthy_opt (c_emailVerificationToken d)
                  then c_emailVerificationToken d else None),
               emailVerificationTokenExpiresAt = c_emailVerificationTokenExpiresAt d,
               passwordResetToken = None, passwordResetTokenExpiresAt = None,
               createdAt = now, updatedAt = now\<rparr>;
          st1 = st\<lparr>users := (users st)(newId \<mapsto> u),
                    emailIndex := (emailIndex st)(normalizedEmail \<mapsto> newId)\<rparr>;
          st2 = (case c_emailVerificationToken d of
                   Some t \<Rightarrow>
                     if truthy t
                     then st1\<lparr>verificationTokenIndex :=
                                 (verificationTokenIndex st1)(t \<mapsto> newId)\<rparr>
                     else st1
                 | None \<Rightarrow> st1)
      in Inr (u, st2))"

text \<open>The index maintenance of \<^verbatim>\<open>updateUser\<close> for one token kind.\<close>

definition reindexToken ::
  "(string \<rightharpoonup> string) \<Rightarrow> string \<Rightarrow> string option \<Rightarrow> string option option
     \<Rightarrow> (string \<rightharpoonup> string)" where
  "reindexToken idx i old new =
     (case new of
        None \<Rightarrow> idx
      | Some newTok \<Rightarrow>
          (let idx1 = (case old of
                         Some t \<Rightarrow> if truthy t then idx(t := None) else idx
                       | None \<Rightarrow> idx)
           in case newTok of
                Some t \<Rightarrow> if truthy t then idx1(t \<mapsto> i) else idx1
              | None \<Rightarrow> idx1))"

text \<open>The object spread \<^verbatim>\<open>{...user, ...data}\<close> for one field.\<close>

definition spread :: "'a \<Rightarrow> 'a option \<Rightarrow> 'a" where
  "spread old new = (case new of None \<Rightarrow> old | Some v \<Rightarrow> v)"

definition updateUser ::
  "store \<Rightarrow> string \<Rightarrow> date \<Rightarrow> updateUserInput \<Rightarrow> adapter_error + (user \<times> store)" where
  "updateUser st i now d =
     (case users st i of
        None \<Rightarrow> Inl (UserNotFound i)
      | Some u \<Rightarrow>
          (let eIdx = (case upd_email d of
                         Some e \<Rightarrow>
                           if truthy e \<and> e \<noteq> email u
                           then ((emailIndex st)(email u := None))(toLowerCase e \<mapsto> i)
                           else emailIndex st
                       | None \<Rightarrow> emailIndex st);
               vIdx = reindexToken (verificationTokenIndex st) i
                        (emailVerificationToken u) (upd_emailVerificationToken d);
               rIdx = reindexToken (passwordResetTokenIndex st) i
                        (passwordResetToken u) (upd_passwordResetToken d);
               updatedUser = \<lparr>id_user = id_user u,
                 email = (case upd_email d of
                            Some e \<Rightarrow> if truthy e then toLowerCase e else email u
                          | None \<Rightarrow> email u),
                 passwordHash = spread (passwordHash u) (upd_passwordHash d),
                 name = spread (name u) (upd_name d),
                 emailVerified = spread (emailVerified u) (upd_emailVerified d),
                 emailVerificationToken =
                   spread (emailVerificationToken u) (upd_emailVerificationToken d),
                 emailVerificationTokenExpiresAt =
                   spread (emailVerificationTokenExpiresAt u)
                     (upd_emailVerificationTokenExpiresAt d),
                 passwordResetToken =
                   spread (passwordResetToken u) (upd_passwordResetToken d),
                 passwordResetTokenExpiresAt =
                   spread (passwordResetTokenExpiresAt u)
                     (upd_passwordResetTokenExpiresAt d),
                 createdAt = createdAt u, updatedAt = now\<rparr>
           in Inr (updatedUser,
                   \<lparr>users = (users st)(i \<mapsto> updatedUser), emailIndex = eIdx,
                    verificationTokenIndex = vIdx, passwordResetTokenIndex = rIdx\<rparr>)))"

definition emailExists :: "store \<Rightarrow> string \<Rightarrow> bool" where
  "emailExists st em = (emailIndex st (toLowerCase em) \<noteq> None)"

text \<open>Deleting a user's current token from an index, when the token is truthy.\<close>

definition dropOld :: "(string \<rightharpoonup> string) \<Rightarrow> string option \<Rightarrow> (string \<rightharpoonup> string)" where
  "dropOld idx old =
     (case old of Some t \<Rightarrow> if truthy t then idx(t := None) else idx | None \<Rightarrow> idx)"

definition setVerificationToken ::
  "store \<Rightarrow> string \<Rightarrow> string \<Rightarrow> date \<Rightarrow> date \<Rightarrow> adapter_error + store" where
  "setVerificationToken st userId token expiresAt now =
     (case users st userId of
        None \<Rightarrow> Inl (UserNotFound userId)
      | Some u \<Rightarrow>
          (let idx = dropOld (verificationTokenIndex st) (emailVerificationToken u);
               u' = u\<lparr>emailVerificationToken := Some token,
                       emailVerificationTokenExpiresAt := Some expiresAt,
                       updatedAt := now\<rparr>
           in Inr (st\<lparr>verificationTokenIndex := idx(token \<mapsto> userId),
                       users := (users st)(userId \<mapsto> u')\<rparr>)))"

definition getVerificationToken :: "store \<Rightarrow> string \<Rightarrow> tokenData option" where
  "getVerificationToken st token =
     (case verificationTokenIndex st token of
        None \<Rightarrow> None
      | Some userId \<Rightarrow>
          if \<not> truthy userId then None
          else (case users st userId of
                  None \<Rightarrow> None
                | Some u \<Rightarrow>
                    (case emailVerificationTokenExpiresAt u of
                       None \<Rightarrow> None
                     | Some e \<Rightarrow>
                         Some \<lparr>td_userId = userId, td_token = token, td_expiresAt = e\<rparr>)))"

definition clearVerificationToken :: "store \<Rightarrow> string \<Rightarrow> date \<Rightarrow> store" where
  "clearVerificationToken st userId now =
     (case users st userId of
        None \<Rightarrow> st
      | Some u \<Rightarrow>
          (let idx = dropOld (verificationTokenIndex st) (emailVerificationToken u);
               u' = u\<lparr>emailVerificationToken := None,
                       emailVerificationTokenExpiresAt := None,
                       updatedAt := now\<rparr>
           in st\<lparr>verificationTokenIndex := idx, users := (users st)(userId \<mapsto> u')\<rparr>))"

definition setPasswordResetToken ::
  "store \<Rightarrow> string \<Rightarrow> string \<Rightarrow> date \<Rightarrow> date \<Rightarrow> adapter_error + store" where
  "setPasswordResetToken st userId token expiresAt now =
     (case users st userId of
        None \<Rightarrow> Inl (UserNotFound userId)
      | Some u \<Rightarrow>
          (let idx = dropOld (passwordResetTokenIndex st) (passwordResetToken u);
               u' = u\<lparr>passwordResetToken := Some token,
                       passwordResetTokenExpiresAt := Some expiresAt,
                       updatedAt := now\<rparr>
           in Inr (st\<lparr>passwordResetTokenIndex := idx(token \<mapsto> userId),
                       users := (users st)(userId \<mapsto> u')\<rparr>)))"

definition getPasswordResetToken :: "store \<Rightarrow> string \<Rightarrow> tokenData option" where
  "getPasswordResetToken st token =
     (case passwordResetTokenIndex st token of
        None \<Rightarrow> None
      | Some userId \<Rightarrow>
          if \<not> truthy userId then None
          else (case users st userId of
                  None \<Rightarrow> None
                | Some u \<Rightarrow>
                    (case passwordResetTokenExpiresAt u of
                       None \<Rightarrow> None
                     | Some e \<Rightarrow>
                         Some \<lparr>td_userId = userId, td_token = token, td_expiresAt = e\<rparr>)))"

definition clearPasswordResetToken :: "store \<Rightarrow> string \<Rightarrow> date \<Rightarrow> store" where
  "clearPasswordResetToken st userId now =
     (case users st userId of
        None \<Rightarrow> st
      | Some u \<Rightarrow>
          (let idx = dropOld (passwordResetTokenIndex st) (passwordResetToken u);
               u' = u\<lparr>passwordResetToken := None,
                       passwordResetTokenExpiresAt := None,
                       updatedAt := now\<rparr>
           in st\<lparr>passwordResetTokenIndex := idx, users := (users st)(userId \<mapsto> u')\<rparr>))"

subsection \<open>BaseAdapter (lib/db/adapter.ts)\<close>

text \<open>\<open>nowV\<close> is the \<^verbatim>\<open>new Date()\<close> stored as \<^verbatim>\<open>emailVerified\<close>, \<open>now\<close> the one of \<^verbatim>\<open>updateUser\<close>.\<close>

definition verifyUserEmail :: "store \<Rightarrow> string \<Rightarrow> date \<Rightarrow> date \<Rightarrow> adapter_error + store" where
  "verifyUserEmail st userId nowV now =
     (case updateUser st userId now
             (noUpdate\<lparr>upd_emailVerified := Some (Some nowV),
                        upd_emailVerificationToken := Some None,
                        upd_emailVerificationTokenExpiresAt := Some None\<rparr>) of
        Inl e \<Rightarrow> Inl e
      | Inr (_, st') \<Rightarrow> Inr st')"

definition updatePassword :: "store \<Rightarrow> string \<Rightarrow> string \<Rightarrow> date \<Rightarrow> adapter_error + store" where
  "updatePassword st userId pwHash now =
     (case updateUser st userId now
             (noUpdate\<lparr>upd_passwordHash := Some pwHash,
                        upd_passwordResetToken := Some None,
                        upd_passwordResetTokenExpiresAt := Some None\<rparr>) of
        Inl e \<Rightarrow> Inl e
      | Inr (_, st') \<Rightarrow> Inr st')"

section \<open>Rate limiter (lib/rate-limiter.ts)\<close>

record rateLimitEntry =
  count :: int
  resetAt :: int

record rateLimitConfig =
  limit :: int
  windowSeconds :: int

record rateLimitResult =
  allowed :: bool
  remaining :: int
  res_resetAt :: int

text \<open>The module state: the store and the time of the last sweep.\<close>

record limiter =
  rateLimitStore :: "string \<rightharpoonup> rateLimitEntry"
  lastCleanupTime :: int

definition CLEANUP_INTERVAL_MS :: int where
  "CLEANUP_INTERVAL_MS = 5 * 60 * 1000"

text \<open>\<open>now\<close> is the function's own \<^verbatim>\<open>Date.now()\<close>. The loop deletes every expired entry.\<close>

definition cleanupExpiredEntries :: "limiter \<Rightarrow> int \<Rightarrow> limiter" where
  "cleanupExpiredEntries rs now =
     (if now - lastCleanupTime rs < CLEANUP_INTERVAL_MS then rs
      else \<lparr>rateLimitStore =
              (\<lambda>k. case rateLimitStore rs k of
                      None \<Rightarrow> None
                    | Some e \<Rightarrow> if resetAt e < now then None else Some e),
            lastCleanupTime = now\<rparr>)"

definition REGISTRATION :: rateLimitConfig where
  "REGISTRATION = \<lparr>limit = 5, windowSeconds = 3600\<rparr>"

definition LOGIN :: rateLimitConfig where
  "LOGIN = \<lparr>limit = 10, windowSeconds = 900\<rparr>"

definition PASSWORD_RESET :: rateLimitConfig where
  "PASSWORD_RESET = \<lparr>limit = 5, windowSeconds = 3600\<rparr>"

definition VERIFICATION_EMAIL :: rateLimitConfig where
  "VERIFICATION_EMAIL = \<lparr>limit = 3, windowSeconds = 3600\<rparr>"

definition GENERAL :: rateLimitConfig where
  "GENERAL = \<lparr>limit = 100, windowSeconds = 60\<rparr>"

definition rateLimitKey :: "string \<Rightarrow> string \<Rightarrow> string" where
  "rateLimitKey identifier endpoint = identifier @ '':'' @ endpoint"

text \<open>
  \<open>now0\<close> is the \<^verbatim>\<open>Date.now()\<close> read inside \<^verbatim>\<open>cleanupExpiredEntries\<close>, \<open>now\<close> the one
  read by \<^verbatim>\<open>checkRateLimit\<close> itself afterwards.
\<close>

definition checkRateLimit ::
  "limiter \<Rightarrow> string \<Rightarrow> string \<Rightarrow> rateLimitConfig \<Rightarrow> int \<Rightarrow> int
     \<Rightarrow> rateLimitResult \<times> limiter" where
  "checkRateLimit rs identifier endpoint config now0 now =
     (let rs1 = cleanupExpiredEntries rs now0;
          key = rateLimitKey identifier endpoint;
          fresh = (let r = now + windowSeconds config * 1000 in
                   (\<lparr>allowed = True, remaining = limit config - 1, res_resetAt = r\<rparr>,
                    rs1\<lparr>rateLimitStore :=
                          (rateLimitStore rs1)(key \<mapsto> \<lparr>count = 1, resetAt = r\<rparr>)\<rparr>))
      in case rateLimitStore rs1 key of
           None \<Rightarrow> fresh
         | Some entry \<Rightarrow>
             if resetAt entry < now then fresh
             else if count entry \<ge> limit config then
               (\<lparr>allowed = False, remaining = 0, res_resetAt = resetAt entry\<rparr>, rs1)
             else
               (\<lparr>allowed = True, remaining = limit config - (count entry + 1),
                 res_resetAt = resetAt entry\<rparr>,
                rs1\<lparr>rateLimitStore :=
                      (rateLimitStore rs1)(key \<mapsto> entry\<lparr>count := count entry + 1\<rparr>)\<rparr>))"

section \<open>HTTP responses and constants (lib/constants.ts)\<close>

text \<open>
  A JSON response is its status and body. The 429 response of \<^verbatim>\<open>rateLimitResponse\<close>
  is kept abstract: it carries the \<^verbatim>\<open>resetAt\<close> its headers are computed from.
\<close>

datatype json_body =
    SuccessBody
  | ErrorBody string string
  | RegisteredBody string string string date

datatype response =
    Json nat json_body
  | RateLimitedResponse int
  | Redirect string

definition VALIDATION_ERROR :: string where "VALIDATION_ERROR = ''VALIDATION_ERROR''"
definition INVALID_VERIFICATION_TOKEN :: string where
  "INVALID_VERIFICATION_TOKEN = ''INVALID_VERIFICATION_TOKEN''"
definition VERIFICATION_TOKEN_EXPIRED :: string where
  "VERIFICATION_TOKEN_EXPIRED = ''VERIFICATION_TOKEN_EXPIRED''"
definition INVALID_RESET_TOKEN :: string where "INVALID_RESET_TOKEN = ''INVALID_RESET_TOKEN''"
definition RESET_TOKEN_EXPIRED :: string where "RESET_TOKEN_EXPIRED = ''RESET_TOKEN_EXPIRED''"
definition INTERNAL_ERROR :: string where "INTERNAL_ERROR = ''INTERNAL_ERROR''"
definition EMAIL_EXISTS :: string where "EMAIL_EXISTS = ''EMAIL_EXISTS''"

definition BAD_REQUEST :: nat where "BAD_REQUEST = 400"
definition CONFLICT :: nat where "CONFLICT = 409"
definition INTERNAL_SERVER_ERROR :: nat where "INTERNAL_SERVER_ERROR = 500"

text \<open>The entries of \<^verbatim>\<open>ERROR_MESSAGES\<close> the handlers below use.\<close>

definition ERROR_MESSAGES :: "string \<Rightarrow> string" where
  "ERROR_MESSAGES code =
     (if code = INVALID_VERIFICATION_TOKEN then ''Invalid verification token''
      else if code = VERIFICATION_TOKEN_EXPIRED then ''Verification token has expired''
      else if code = INVALID_RESET_TOKEN then ''Invalid or expired reset token''
      else if code = RESET_TOKEN_EXPIRED then ''Password reset token has expired''
      else if code = VALIDATION_ERROR then ''Invalid request data''
      else ''An unexpected error occurred'')"

definition internalError :: response where
  "internalError = Json INTERNAL_SERVER_ERROR (ErrorBody INTERNAL_ERROR (ERROR_MESSAGES INTERNAL_ERROR))"

definition applyRateLimit ::
  "limiter \<Rightarrow> string \<Rightarrow> string \<Rightarrow> rateLimitConfig \<Rightarrow> int \<Rightarrow> int
     \<Rightarrow> response option \<times> limiter" where
  "applyRateLimit rs identifier endpoint config now0 now =
     (let (result, rs') = checkRateLimit rs identifier endpoint config now0 now
      in if \<not> allowed result then (Some (RateLimitedResponse (res_resetAt result)), rs')
         else (None, rs'))"

section \<open>Validation schemas (lib/validations/auth.ts)\<close>

definition isUpper :: "char \<Rightarrow> bool" where
  "isUpper c = (65 \<le> (of_char c :: nat) \<and> (of_char c :: nat) \<le> 90)"

definition isLower :: "char \<Rightarrow> bool" where
  "isLower c = (97 \<le> (of_char c :: nat) \<and> (of_char c :: nat) \<le> 122)"

definition isDigit :: "char \<Rightarrow> bool" where
  "isDigit c = (48 \<le> (of_char c :: nat) \<and> (of_char c :: nat) \<le> 57)"

text \<open>\<^verbatim>\<open>passwordSchema\<close>: the parse succeeds when every check passes.\<close>

definition passwordSchema :: "string \<Rightarrow> bool" where
  "passwordSchema password =
     (8 \<le> length password \<and> length password \<le> 128
      \<and> list_ex isUpper password \<and> list_ex isLower password \<and> list_ex isDigit password)"

definition isSpace :: "char \<Rightarrow> bool" where
  "isSpace c = ((of_char c :: nat) = 32 \<or> (9 \<le> (of_char c :: nat) \<and> (of_char c :: nat) \<le> 13))"

definition trim :: "string \<Rightarrow> string" where
  "trim s = rev (dropWhile isSpace (rev (dropWhile isSpace s)))"

record registerBody =
  rb_email :: string
  rb_password :: string
  rb_name :: string

text \<open>
  \<^verbatim>\<open>registerSchema.safeParse\<close>: \<open>None\<close> when the parse fails, else the parsed data.
  The address syntax check of the validation library is the parameter \<open>emailSyntax\<close>.
\<close>

definition registerSchema :: "(string \<Rightarrow> bool) \<Rightarrow> registerBody \<Rightarrow> registerBody option" where
  "registerSchema emailSyntax body =
     (if emailSyntax (rb_email body) \<and> length (rb_email body) \<le> 255
         \<and> passwordSchema (rb_password body)
         \<and> 1 \<le> length (rb_name body) \<and> length (rb_name body) \<le> 100
      then Some \<lparr>rb_email = toLowerCase (rb_email body), rb_password = rb_password body,
                 rb_name = trim (rb_name body)\<rparr>
      else None)"

section \<open>Route handlers\<close>

text \<open>
  The handlers share the adapter's maps and the limiter's state. Each handler is
  modelled from the point where the hashed client IP (\<open>ipHash\<close>) is known and the
  request body is parsed: a body field is \<open>None\<close> when absent and a string otherwise.
  Every exception inside a handler is caught by its \<^verbatim>\<open>try\<close>/\<^verbatim>\<open>catch\<close> and answered
  with the 500 response, keeping the mutations made before it.
\<close>

record world =
  db :: store
  rl :: limiter

subsection \<open>POST /api/auth/register\<close>

text \<open>
  \<open>t0\<close>, \<open>t1\<close>: the limiter's two clock readings; \<open>pwHash\<close>: the result of
  \<^verbatim>\<open>hash(password, 12)\<close>; \<open>verificationToken\<close>: \<^verbatim>\<open>randomUUID()\<close>; \<open>tNow\<close>: the
  \<^verbatim>\<open>Date.now()\<close> of the expiry; \<open>newId\<close> and \<open>tCreate\<close>: the \<^verbatim>\<open>uuid()\<close> and
  \<^verbatim>\<open>new Date()\<close> of \<^verbatim>\<open>createUser\<close>. A failure to send the verification email is caught
  and logged, so the outcome of sending does not appear.
\<close>

definition register_POST ::
  "(string \<Rightarrow> bool) \<Rightarrow> world \<Rightarrow> string \<Rightarrow> int \<Rightarrow> int \<Rightarrow> registerBody \<Rightarrow> string \<Rightarrow> string
     \<Rightarrow> int \<Rightarrow> string \<Rightarrow> date \<Rightarrow> response \<times> world" where
  "register_POST emailSyntax w ipHash t0 t1 body pwHash verificationToken tNow newId tCreate =
     (case applyRateLimit (rl w) ipHash ''register'' REGISTRATION t0 t1 of
        (Some limited, rl') \<Rightarrow> (limited, w\<lparr>rl := rl'\<rparr>)
      | (None, rl') \<Rightarrow>
          (let w1 = w\<lparr>rl := rl'\<rparr> in
           case registerSchema emailSyntax body of
             None \<Rightarrow>
               (Json BAD_REQUEST (ErrorBody VALIDATION_ERROR (ERROR_MESSAGES VALIDATION_ERROR)), w1)
           | Some parsed \<Rightarrow>
               if emailExists (db w1) (rb_email parsed) then
                 (Json CONFLICT (ErrorBody EMAIL_EXISTS ''Email already in use''), w1)
               else
                 (let verificationExpiresAt = tNow + 24 * 60 * 60 * 1000 in
                  case createUser (db w1) newId tCreate
                         \<lparr>c_email = rb_email parsed, c_passwordHash = pwHash,
                          c_name = rb_name parsed,
                          c_emailVerificationToken = Some verificationToken,
                          c_emailVerificationTokenExpiresAt = Some verificationExpiresAt\<rparr> of
                    Inl _ \<Rightarrow> (internalError, w1)
                  | Inr (u, st') \<Rightarrow>
                      (Json 201 (RegisteredBody (id_user u) (email u) (name u) (createdAt u)),
                       w1\<lparr>db := st'\<rparr>))))"

subsection \<open>GET /api/auth/verify-email\<close>

text \<open>
  \<open>tokenParam\<close> is \<^verbatim>\<open>searchParams.get("token")\<close>; \<open>tExp\<close> the \<^verbatim>\<open>new Date()\<close> of the
  expiry check, \<open>tVer\<close> the one stored as \<^verbatim>\<open>emailVerified\<close>, \<open>tUpd\<close> the one of
  \<^verbatim>\<open>updateUser\<close>. This handler applies no rate limit.
\<close>

definition verify_email_GET ::
  "store \<Rightarrow> string option \<Rightarrow> date \<Rightarrow> date \<Rightarrow> date \<Rightarrow> response \<times> store" where
  "verify_email_GET st tokenParam tExp tVer tUpd =
     (if \<not> truthy_opt tokenParam then
        (Json BAD_REQUEST (ErrorBody VALIDATION_ERROR ''Token is required''), st)
      else
        (let token = (case tokenParam of Some t \<Rightarrow> t | None \<Rightarrow> []) in
         case getVerificationToken st token of
           None \<Rightarrow>
             (Json BAD_REQUEST
                (ErrorBody INVALID_VERIFICATION_TOKEN (ERROR_MESSAGES INVALID_VERIFICATION_TOKEN)),
              st)
         | Some tokenData \<Rightarrow>
             if td_expiresAt tokenData < tExp then
               (Json BAD_REQUEST
                  (ErrorBody VERIFICATION_TOKEN_EXPIRED (ERROR_MESSAGES VERIFICATION_TOKEN_EXPIRED)),
                st)
             else
               (case verifyUserEmail st (td_userId tokenData) tVer tUpd of
                  Inl _ \<Rightarrow> (internalError, st)
                | Inr st' \<Rightarrow> (Redirect ''/verify-email/success'', st'))))"

subsection \<open>POST /api/auth/forgot-password\<close>

text \<open>
  \<open>emailField\<close> is \<^verbatim>\<open>body.email\<close>; \<open>token\<close> is \<^verbatim>\<open>randomUUID()\<close>; \<open>tNow\<close> the
  \<^verbatim>\<open>Date.now()\<close> of the expiry; \<open>tUpd\<close> the \<^verbatim>\<open>new Date()\<close> of the adapter;
  \<open>sendOk\<close> tells whether \<^verbatim>\<open>sendPasswordResetEmail\<close> returned without throwing.
\<close>

definition forgot_password_POST ::
  "world \<Rightarrow> string \<Rightarrow> int \<Rightarrow> int \<Rightarrow> string option \<Rightarrow> string \<Rightarrow> int \<Rightarrow> date \<Rightarrow> bool
     \<Rightarrow> response \<times> world" where
  "forgot_password_POST w ipHash t0 t1 emailField token tNow tUpd sendOk =
     (case applyRateLimit (rl w) ipHash ''forgot-password'' PASSWORD_RESET t0 t1 of
        (Some limited, rl') \<Rightarrow> (limited, w\<lparr>rl := rl'\<rparr>)
      | (None, rl') \<Rightarrow>
          (let w1 = w\<lparr>rl := rl'\<rparr> in
           if \<not> truthy_opt emailField then
             (Json BAD_REQUEST (ErrorBody VALIDATION_ERROR ''Email is required''), w1)
           else
             (case findUserByEmail (db w1) (case emailField of Some e \<Rightarrow> e | None \<Rightarrow> []) of
                None \<Rightarrow> (Json 200 SuccessBody, w1)
              | Some u \<Rightarrow>
                  (let expiresAt = tNow + 60 * 60 * 1000 in
                   case setPasswordResetToken (db w1) (fa_id u) token expiresAt tUpd of
                     Inl _ \<Rightarrow> (internalError, w1)
                   | Inr st' \<Rightarrow>
                       if \<not> sendOk then (internalError, w1\<lparr>db := st'\<rparr>)
                       else (Json 200 SuccessBody, w1\<lparr>db := st'\<rparr>)))))"

subsection \<open>POST /api/auth/reset-password\<close>

text \<open>
  \<open>tokenField\<close> and \<open>passwordField\<close> are \<^verbatim>\<open>body.token\<close> and \<^verbatim>\<open>body.password\<close>;
  \<open>tExp\<close> the \<^verbatim>\<open>new Date()\<close> of the expiry check; \<open>pwHash\<close> the result of
  \<^verbatim>\<open>hash(password, 12)\<close>; \<open>tUpd\<close> the \<^verbatim>\<open>new Date()\<close> of \<^verbatim>\<open>updateUser\<close>.
\<close>

definition reset_password_POST ::
  "world \<Rightarrow> string \<Rightarrow> int \<Rightarrow> int \<Rightarrow> string option \<Rightarrow> string option \<Rightarrow> date \<Rightarrow> string \<Rightarrow> date
     \<Rightarrow> response \<times> world" where
  "reset_password_POST w ipHash t0 t1 tokenField passwordField tExp pwHash tUpd =
     (case applyRateLimit (rl w) ipHash ''reset-password'' PASSWORD_RESET t0 t1 of
        (Some limited, rl') \<Rightarrow> (limited, w\<lparr>rl := rl'\<rparr>)
      | (None, rl') \<Rightarrow>
          (let w1 = w\<lparr>rl := rl'\<rparr> in
           if \<not> truthy_opt tokenField \<or> \<not> truthy_opt passwordField then
             (Json BAD_REQUEST (ErrorBody VALIDATION_ERROR ''Token and password are required''), w1)
           else if length (case passwordField of Some p \<Rightarrow> p | None \<Rightarrow> []) < 8 then
             (Json BAD_REQUEST
                (ErrorBody VALIDATION_ERROR ''Password must be at least 8 characters''), w1)
           else
             (case getPasswordResetToken (db w1)
                     (case tokenField of Some t \<Rightarrow> t | None \<Rightarrow> []) of
                None \<Rightarrow>
                  (Json BAD_REQUEST
                     (ErrorBody INVALID_RESET_TOKEN (ERROR_MESSAGES INVALID_RESET_TOKEN)), w1)
              | Some tokenData \<Rightarrow>
                  if td_expiresAt tokenData < tExp then
                    (Json BAD_REQUEST
                       (ErrorBody RESET_TOKEN_EXPIRED (ERROR_MESSAGES RESET_TOKEN_EXPIRED)), w1)
                  else
                    (case updatePassword (db w1) (td_userId tokenData) pwHash tUpd of
                       Inl _ \<Rightarrow> (internalError, w1)
                     | Inr st' \<Rightarrow> (Json 200 SuccessBody, w1\<lparr>db := st'\<rparr>)))))"

section \<open>Route middleware (middleware.ts)\<close>

datatype middleware_error = SecretRequired

text \<open>
  \<^verbatim>\<open>validateSecret\<close>: the flag \<^verbatim>\<open>secretValidated\<close>, the environment's
  \<^verbatim>\<open>NEXTAUTH_SECRET\<close> and whether \<^verbatim>\<open>NODE_ENV\<close> is production; returns the new flag.
\<close>

definition validateSecret :: "bool \<Rightarrow> string option \<Rightarrow> bool \<Rightarrow> middleware_error + bool" where
  "validateSecret secretValidated secret production =
     (if secretValidated then Inr secretValidated
      else if \<not> truthy_opt secret \<and> production then Inl SecretRequired
      else Inr True)"

definition PROTECTED_ROUTES :: "string list" where
  "PROTECTED_ROUTES = [''/dashboard'']"

definition AUTH_ROUTES :: "string list" where
  "AUTH_ROUTES = [''/'', ''/login'', ''/register'', ''/forgot-password'', ''/reset-password'',
                  ''/verify-email'']"

definition isProtectedRoute :: "string \<Rightarrow> bool" where
  "isProtectedRoute pathname =
     list_ex (\<lambda>route. pathname = route \<or> prefix (route @ ''/'') pathname) PROTECTED_ROUTES"

definition isAuthRoute :: "string \<Rightarrow> bool" where
  "isAuthRoute pathname =
     list_ex (\<lambda>route. if route = ''/verify-email''
                       then pathname = route \<or> prefix (route @ ''/'') pathname
                       else pathname = route) AUTH_ROUTES"

text \<open>
  The three outcomes: a redirect to \<^verbatim>\<open>/login\<close> with the query parameter
  \<^verbatim>\<open>callbackUrl\<close>, a redirect to \<^verbatim>\<open>/dashboard\<close>, and \<^verbatim>\<open>NextResponse.next()\<close>.
\<close>

datatype gate = RedirectLogin string | RedirectDashboard | Next

text \<open>\<open>token\<close> is the result of \<^verbatim>\<open>getToken\<close>: \<open>None\<close> when there is no session.\<close>

definition middleware ::
  "bool \<Rightarrow> string option \<Rightarrow> bool \<Rightarrow> string \<Rightarrow> 'jwt option \<Rightarrow> middleware_error + (gate \<times> bool)" where
  "middleware secretValidated secret production pathname token =
     (case validateSecret secretValidated secret production of
        Inl e \<Rightarrow> Inl e
      | Inr validated \<Rightarrow>
          (let isAuthenticated = (token \<noteq> None) in
           if isProtectedRoute pathname \<and> \<not> isAuthenticated then
             Inr (RedirectLogin pathname, validated)
           else if isAuthRoute pathname \<and> isAuthenticated then
             Inr (RedirectDashboard, validated)
           else Inr (Next, validated)))"

section \<open>Auxiliary notions used by the properties\<close>

text \<open>
  Index consistency of the adapter: every entry of a token index carries a non-empty
  token and points to a stored user whose record holds exactly that token.
\<close>

definition index_consistent :: "store \<Rightarrow> bool" where
  "index_consistent st =
     ((\<forall>t i. verificationTokenIndex st t = Some i \<longrightarrow>
          t \<noteq> [] \<and> (\<exists>u. users st i = Some u \<and> emailVerificationToken u = Some t))
      \<and> (\<forall>t i. passwordResetTokenIndex st t = Some i \<longrightarrow>
          t \<noteq> [] \<and> (\<exists>u. users st i = Some u \<and> passwordResetToken u = Some t)))"

text \<open>
  A sequence of \<^verbatim>\<open>checkRateLimit\<close> calls for one key; each call has its two clock
  readings. The results are returned in call order with the final limiter state.
\<close>

fun run_checks ::
  "limiter \<Rightarrow> string \<Rightarrow> string \<Rightarrow> rateLimitConfig \<Rightarrow> (int \<times> int) list
     \<Rightarrow> rateLimitResult list \<times> limiter" where
  "run_checks rs identifier endpoint config [] = ([], rs)"
| "run_checks rs identifier endpoint config ((now0, now) # ts) =
     (let (r, rs1) = checkRateLimit rs identifier endpoint config now0 now;
          (results, rs2) = run_checks rs1 identifier endpoint config ts
      in (r # results, rs2))"

text \<open>The error code of a response, when it is an error response.\<close>

fun errorCode :: "response \<Rightarrow> string option" where
  "errorCode (Json _ (ErrorBody code _)) = Some code"
| "errorCode _ = None"

section \<open>Concrete states used as examples\<close>

text \<open>
  A store with one unverified user who holds a verification token expiring at 1000 and
  a reset token expiring at 2000, and a limiter with no entries.
\<close>

definition ann :: user where
  "ann = \<lparr>id_user = ''u1'', email = ''a@x.com'', passwordHash = ''h1'', name = ''Ann'',
     emailVerified = None, emailVerificationToken = Some ''v1'',
     emailVerificationTokenExpiresAt = Some 1000, passwordResetToken = Some ''r1'',
     passwordResetTokenExpiresAt = Some 2000, createdAt = 0, updatedAt = 0\<rparr>"

definition dupInput :: createUserInput where
  "dupInput = \<lparr>c_email = ''A@x.com'', c_passwordHash = ''h9'', c_name = ''Imp'',
     c_emailVerificationToken = None, c_emailVerificationTokenExpiresAt = None\<rparr>"

text \<open>An address syntax check that accepts every string, and a registration body.\<close>

definition anySyntax :: "string \<Rightarrow> bool" where
  "anySyntax s = True"

definition bodyDup :: registerBody where
  "bodyDup = \<lparr>rb_email = ''A@x.com'', rb_password = ''Newpass12'', rb_name = ''Imp''\<rparr>"

definition storeAnn :: store where
  "storeAnn = \<lparr>users = Map.empty(''u1'' \<mapsto> ann),
     emailIndex = Map.empty(''a@x.com'' \<mapsto> ''u1''),
     verificationTokenIndex = Map.empty(''v1'' \<mapsto> ''u1''),
     passwordResetTokenIndex = Map.empty(''r1'' \<mapsto> ''u1'')\<rparr>"

definition limiter0 :: limiter where
  "limiter0 = \<lparr>rateLimitStore = Map.empty, lastCleanupTime = 0\<rparr>"

definition worldAnn :: world where
  "worldAnn = \<lparr>db = storeAnn, rl = limiter0\<rparr>"

definition limiterFull :: limiter where
  "limiterFull = \<lparr>rateLimitStore = Map.empty(''ip:login'' \<mapsto> \<lparr>count = 10, resetAt = 1000\<rparr>),
                   lastCleanupTime = 0\<rparr>"

definition limiterHalf :: limiter where
  "limiterHalf = \<lparr>rateLimitStore = Map.empty(''ip:login'' \<mapsto> \<lparr>count = 4, resetAt = 1000\<rparr>),
                   lastCleanupTime = 0\<rparr>"

definition twoPerMinute :: rateLimitConfig where
  "twoPerMinute = \<lparr>limit = 2, windowSeconds = 60\<rparr>"

section \<open>Properties of the in-memory adapter\<close>

text \<open>
  C10. For a \<open>userId\<close> with no stored user, \<^verbatim>\<open>clearVerificationToken\<close> and
  \<^verbatim>\<open>clearPasswordResetToken\<close> return normally and leave the whole store as it was,
  while \<^verbatim>\<open>setVerificationToken\<close> and \<^verbatim>\<open>setPasswordResetToken\<close> for the same
  \<open>userId\<close> throw the user-not-found error.
\<close>

theorem clear_noop_set_throws_on_missing_user:
  assumes "users st userId = None"
  shows "clearVerificationToken st userId now = st
       \<and> clearPasswordResetToken st userId now = st
       \<and> setVerificationToken st userId token expiresAt now = Inl (UserNotFound userId)
       \<and> setPasswordResetToken st userId token expiresAt now = Inl (UserNotFound userId)"
  using assms
  by (simp add: clearVerificationToken_def clearPasswordResetToken_def
      setVerificationToken_def setPasswordResetToken_def)

theorem clear_noop_set_throws_on_missing_user_witness:
  "users emptyStore ''u1'' = None
   \<and> clearVerificationToken emptyStore ''u1'' 5 = emptyStore
   \<and> clearPasswordResetToken emptyStore ''u1'' 5 = emptyStore
   \<and> setVerificationToken emptyStore ''u1'' ''tok'' 9 5 = Inl (UserNotFound ''u1'')
   \<and> setPasswordResetToken emptyStore ''u1'' ''tok'' 9 5 = Inl (UserNotFound ''u1'')"
proof -
  have h: "users emptyStore ''u1'' = None" by (simp add: emptyStore_def)
  show ?thesis
    using h clear_noop_set_throws_on_missing_user [OF h, of 5 "''tok''" 9] by simp
qed

lemma getVerificationToken_Some:
  assumes "getVerificationToken st token = Some td"
  obtains u where "verificationTokenIndex st token = Some (td_userId td)"
    and "users st (td_userId td) = Some u"
    and "emailVerificationTokenExpiresAt u = Some (td_expiresAt td)"
  using assms
  by (auto simp: getVerificationToken_def split: option.splits if_splits)

lemma getPasswordResetToken_Some:
  assumes "getPasswordResetToken st token = Some td"
  obtains u where "passwordResetTokenIndex st token = Some (td_userId td)"
    and "users st (td_userId td) = Some u"
    and "passwordResetTokenExpiresAt u = Some (td_expiresAt td)"
  using assms
  by (auto simp: getPasswordResetToken_def split: option.splits if_splits)

lemma dropOld_cases: "dropOld idx old t = None \<or> dropOld idx old t = idx t"
  by (simp add: dropOld_def split: option.splits)

lemma reindex_null: "reindexToken idx i old (Some None) = dropOld idx old"
  by (simp add: reindexToken_def dropOld_def split: option.splits)

lemma reindex_absent: "reindexToken idx i old None = idx"
  by (simp add: reindexToken_def)

lemma verifyUserEmail_result:
  assumes "users st i = Some u"
  shows "verifyUserEmail st i nowV now =
     Inr \<lparr>users = (users st)(i \<mapsto> u\<lparr>emailVerified := Some nowV,
                                      emailVerificationToken := None,
                                      emailVerificationTokenExpiresAt := None,
                                      updatedAt := now\<rparr>),
          emailIndex = emailIndex st,
          verificationTokenIndex = dropOld (verificationTokenIndex st) (emailVerificationToken u),
          passwordResetTokenIndex = passwordResetTokenIndex st\<rparr>"
  using assms
  by (cases u)
     (simp add: verifyUserEmail_def updateUser_def noUpdate_def reindex_null reindex_absent
      spread_def Let_def)

lemma updatePassword_result:
  assumes "users st i = Some u"
  shows "updatePassword st i pwHash now =
     Inr \<lparr>users = (users st)(i \<mapsto> u\<lparr>passwordHash := pwHash,
                                      passwordResetToken := None,
                                      passwordResetTokenExpiresAt := None,
                                      updatedAt := now\<rparr>),
          emailIndex = emailIndex st,
          verificationTokenIndex = verificationTokenIndex st,
          passwordResetTokenIndex = dropOld (passwordResetTokenIndex st) (passwordResetToken u)\<rparr>"
  using assms
  by (cases u)
     (simp add: updatePassword_def updateUser_def noUpdate_def reindex_null reindex_absent
      spread_def Let_def)


lemma index_consistent_verification:
  assumes "index_consistent st" and "verificationTokenIndex st t = Some i"
    and "users st i = Some u"
  shows "t \<noteq> []" and "emailVerificationToken u = Some t"
proof -
  from assms(1,2) obtain u' where "t \<noteq> []" and "users st i = Some u'"
    and "emailVerificationToken u' = Some t"
    unfolding index_consistent_def by blast
  with assms(3) show "t \<noteq> []" and "emailVerificationToken u = Some t" by simp_all
qed

lemma index_consistent_reset:
  assumes "index_consistent st" and "passwordResetTokenIndex st t = Some i"
    and "users st i = Some u"
  shows "t \<noteq> []" and "passwordResetToken u = Some t"
proof -
  from assms(1,2) obtain u' where "t \<noteq> []" and "users st i = Some u'"
    and "passwordResetToken u' = Some t"
    unfolding index_consistent_def by blast
  with assms(3) show "t \<noteq> []" and "passwordResetToken u = Some t" by simp_all
qed

lemma consumed_verification_token:
  assumes "getVerificationToken st token = Some td"
    and "verifyUserEmail st (td_userId td) nowV now = Inr st'"
  shows "getVerificationToken st' token = None"
    and "\<exists>u'. users st' (td_userId td) = Some u' \<and> emailVerificationToken u' = None
           \<and> emailVerificationTokenExpiresAt u' = None \<and> emailVerified u' = Some nowV"
    and "index_consistent st \<Longrightarrow> verificationTokenIndex st' token = None"
proof -
  obtain u where i: "verificationTokenIndex st token = Some (td_userId td)"
    and u: "users st (td_userId td) = Some u"
    using assms(1) by (rule getVerificationToken_Some)
  have st': "st' = \<lparr>users = (users st)(td_userId td \<mapsto> u\<lparr>emailVerified := Some nowV,
                                      emailVerificationToken := None,
                                      emailVerificationTokenExpiresAt := None,
                                      updatedAt := now\<rparr>),
          emailIndex = emailIndex st,
          verificationTokenIndex = dropOld (verificationTokenIndex st) (emailVerificationToken u),
          passwordResetTokenIndex = passwordResetTokenIndex st\<rparr>"
    using assms(2) verifyUserEmail_result [OF u, of nowV now] by simp
  have "verificationTokenIndex st' token = None
      \<or> verificationTokenIndex st' token = Some (td_userId td)"
    using dropOld_cases [of "verificationTokenIndex st" "emailVerificationToken u" token] i
    by (auto simp: st')
  then show "getVerificationToken st' token = None"
    by (auto simp: getVerificationToken_def st')
  show "\<exists>u'. users st' (td_userId td) = Some u' \<and> emailVerificationToken u' = None
           \<and> emailVerificationTokenExpiresAt u' = None \<and> emailVerified u' = Some nowV"
    by (simp add: st')
  show "verificationTokenIndex st' token = None" if "index_consistent st"
  proof -
    from that i u have "token \<noteq> []" "emailVerificationToken u = Some token"
      by (rule index_consistent_verification)+
    then show ?thesis by (simp add: st' dropOld_def truthy_def)
  qed
qed

lemma consumed_reset_token:
  assumes "getPasswordResetToken st token = Some td"
    and "updatePassword st (td_userId td) pwHash now = Inr st'"
  shows "getPasswordResetToken st' token = None"
    and "\<exists>u'. users st' (td_userId td) = Some u' \<and> passwordResetToken u' = None
           \<and> passwordResetTokenExpiresAt u' = None \<and> passwordHash u' = pwHash"
    and "index_consistent st \<Longrightarrow> passwordResetTokenIndex st' token = None"
proof -
  obtain u where i: "passwordResetTokenIndex st token = Some (td_userId td)"
    and u: "users st (td_userId td) = Some u"
    using assms(1) by (rule getPasswordResetToken_Some)
  have st': "st' = \<lparr>users = (users st)(td_userId td \<mapsto> u\<lparr>passwordHash := pwHash,
                                      passwordResetToken := None,
                                      passwordResetTokenExpiresAt := None,
                                      updatedAt := now\<rparr>),
          emailIndex = emailIndex st,
          verificationTokenIndex = verificationTokenIndex st,
          passwordResetTokenIndex = dropOld (passwordResetTokenIndex st) (passwordResetToken u)\<rparr>"
    using assms(2) updatePassword_result [OF u, of pwHash now] by simp
  have "passwordResetTokenIndex st' token = None
      \<or> passwordResetTokenIndex st' token = Some (td_userId td)"
    using dropOld_cases [of "passwordResetTokenIndex st" "passwordResetToken u" token] i
    by (auto simp: st')
  then show "getPasswordResetToken st' token = None"
    by (auto simp: getPasswordResetToken_def st')
  show "\<exists>u'. users st' (td_userId td) = Some u' \<and> passwordResetToken u' = None
           \<and> passwordResetTokenExpiresAt u' = None \<and> passwordHash u' = pwHash"
    by (simp add: st')
  show "passwordResetTokenIndex st' token = None" if "index_consistent st"
  proof -
    from that i u have "token \<noteq> []" "passwordResetToken u = Some token"
      by (rule index_consistent_reset)+
    then show ?thesis by (simp add: st' dropOld_def truthy_def)
  qed
qed

lemma dropOld_same:
  assumes "t \<noteq> []"
  shows "dropOld idx (Some t) t = None"
  using assms by (simp add: dropOld_def truthy_def)

lemma setVerificationToken_result:
  assumes "users st i = Some u"
  shows "setVerificationToken st i token expiresAt now =
     Inr (st\<lparr>verificationTokenIndex :=
                (dropOld (verificationTokenIndex st) (emailVerificationToken u))(token \<mapsto> i),
              users := (users st)(i \<mapsto> u\<lparr>emailVerificationToken := Some token,
                                          emailVerificationTokenExpiresAt := Some expiresAt,
                                          updatedAt := now\<rparr>)\<rparr>)"
  using assms by (simp add: setVerificationToken_def Let_def)

lemma setPasswordResetToken_result:
  assumes "users st i = Some u"
  shows "setPasswordResetToken st i token expiresAt now =
     Inr (st\<lparr>passwordResetTokenIndex :=
                (dropOld (passwordResetTokenIndex st) (passwordResetToken u))(token \<mapsto> i),
              users := (users st)(i \<mapsto> u\<lparr>passwordResetToken := Some token,
                                          passwordResetTokenExpiresAt := Some expiresAt,
                                          updatedAt := now\<rparr>)\<rparr>)"
  using assms by (simp add: setPasswordResetToken_def Let_def)

lemma setVerificationToken_Inr:
  assumes "setVerificationToken st i token expiresAt now = Inr st'"
  obtains u where "users st i = Some u"
  using assms by (auto simp: setVerificationToken_def split: option.splits)

lemma setPasswordResetToken_Inr:
  assumes "setPasswordResetToken st i token expiresAt now = Inr st'"
  obtains u where "users st i = Some u"
  using assms by (auto simp: setPasswordResetToken_def split: option.splits)

lemma setVerificationToken_supersedes:
  assumes c: "index_consistent st" and ne: "tb \<noteq> []"
    and s: "setVerificationToken st i tb expiresAt now = Inr st'"
  shows "\<forall>t. verificationTokenIndex st' t = Some i \<longrightarrow> t = tb"
    and "index_consistent st'"
proof -
  obtain u where u: "users st i = Some u" using s by (rule setVerificationToken_Inr)
  have st': "st' = st\<lparr>verificationTokenIndex :=
                (dropOld (verificationTokenIndex st) (emailVerificationToken u))(tb \<mapsto> i),
              users := (users st)(i \<mapsto> u\<lparr>emailVerificationToken := Some tb,
                                          emailVerificationTokenExpiresAt := Some expiresAt,
                                          updatedAt := now\<rparr>)\<rparr>"
    using s setVerificationToken_result [OF u, of tb expiresAt now] by simp
  show one: "\<forall>t. verificationTokenIndex st' t = Some i \<longrightarrow> t = tb"
  proof (intro allI impI)
    fix t assume a: "verificationTokenIndex st' t = Some i"
    show "t = tb"
    proof (rule ccontr)
      assume n: "t \<noteq> tb"
      with a have d: "dropOld (verificationTokenIndex st) (emailVerificationToken u) t = Some i"
        by (simp add: st')
      then have v: "verificationTokenIndex st t = Some i"
        using dropOld_cases [of "verificationTokenIndex st" "emailVerificationToken u" t] by auto
      from index_consistent_verification [OF c v u]
      have "t \<noteq> []" "emailVerificationToken u = Some t" by simp_all
      then have "dropOld (verificationTokenIndex st) (emailVerificationToken u) t = None"
        by (simp add: dropOld_same)
      with d show False by simp
    qed
  qed
  show "index_consistent st'"
    unfolding index_consistent_def
  proof (rule conjI; intro allI impI)
    fix t j assume a: "verificationTokenIndex st' t = Some j"
    show "t \<noteq> [] \<and> (\<exists>x. users st' j = Some x \<and> emailVerificationToken x = Some t)"
    proof (cases "t = tb")
      case True
      with a have "j = i" by (simp add: st')
      with True ne show ?thesis by (simp add: st')
    next
      case False
      with a have d: "dropOld (verificationTokenIndex st) (emailVerificationToken u) t = Some j"
        by (simp add: st')
      then have v: "verificationTokenIndex st t = Some j"
        using dropOld_cases [of "verificationTokenIndex st" "emailVerificationToken u" t] by auto
      have "j \<noteq> i" using one a False by blast
      moreover from c v have "t \<noteq> [] \<and> (\<exists>x. users st j = Some x \<and> emailVerificationToken x = Some t)"
        unfolding index_consistent_def by blast
      ultimately show ?thesis by (simp add: st')
    qed
  next
    fix t j assume a: "passwordResetTokenIndex st' t = Some j"
    then have v: "passwordResetTokenIndex st t = Some j" by (simp add: st')
    from c v have r: "t \<noteq> [] \<and> (\<exists>x. users st j = Some x \<and> passwordResetToken x = Some t)"
      unfolding index_consistent_def by blast
    show "t \<noteq> [] \<and> (\<exists>x. users st' j = Some x \<and> passwordResetToken x = Some t)"
    proof (cases "j = i")
      case True
      with r u show ?thesis by (simp add: st')
    next
      case False
      with r show ?thesis by (simp add: st')
    qed
  qed
qed

lemma setPasswordResetToken_supersedes:
  assumes c: "index_consistent st" and ne: "tb \<noteq> []"
    and s: "setPasswordResetToken st i tb expiresAt now = Inr st'"
  shows "\<forall>t. passwordResetTokenIndex st' t = Some i \<longrightarrow> t = tb"
    and "index_consistent st'"
proof -
  obtain u where u: "users st i = Some u" using s by (rule setPasswordResetToken_Inr)
  have st': "st' = st\<lparr>passwordResetTokenIndex :=
                (dropOld (passwordResetTokenIndex st) (passwordResetToken u))(tb \<mapsto> i),
              users := (users st)(i \<mapsto> u\<lparr>passwordResetToken := Some tb,
                                          passwordResetTokenExpiresAt := Some expiresAt,
                                          updatedAt := now\<rparr>)\<rparr>"
    using s setPasswordResetToken_result [OF u, of tb expiresAt now] by simp
  show one: "\<forall>t. passwordResetTokenIndex st' t = Some i \<longrightarrow> t = tb"
  proof (intro allI impI)
    fix t assume a: "passwordResetTokenIndex st' t = Some i"
    show "t = tb"
    proof (rule ccontr)
      assume n: "t \<noteq> tb"
      with a have d: "dropOld (passwordResetTokenIndex st) (passwordResetToken u) t = Some i"
        by (simp add: st')
      then have v: "passwordResetTokenIndex st t = Some i"
        using dropOld_cases [of "passwordResetTokenIndex st" "passwordResetToken u" t] by auto
      from index_consistent_reset [OF c v u]
      have "t \<noteq> []" "passwordResetToken u = Some t" by simp_all
      then have "dropOld (passwordResetTokenIndex st) (passwordResetToken u) t = None"
        by (simp add: dropOld_same)
      with d show False by simp
    qed
  qed
  show "index_consistent st'"
    unfolding index_consistent_def
  proof (rule conjI; intro allI impI)
    fix t j assume a: "passwordResetTokenIndex st' t = Some j"
    show "t \<noteq> [] \<and> (\<exists>x. users st' j = Some x \<and> passwordResetToken x = Some t)"
    proof (cases "t = tb")
      case True
      with a have "j = i" by (simp add: st')
      with True ne show ?thesis by (simp add: st')
    next
      case False
      with a have d: "dropOld (passwordResetTokenIndex st) (passwordResetToken u) t = Some j"
        by (simp add: st')
      then have v: "passwordResetTokenIndex st t = Some j"
        using dropOld_cases [of "passwordResetTokenIndex st" "passwordResetToken u" t] by auto
      have "j \<noteq> i" using one a False by blast
      moreover from c v have "t \<noteq> [] \<and> (\<exists>x. users st j = Some x \<and> passwordResetToken x = Some t)"
        unfolding index_consistent_def by blast
      ultimately show ?thesis by (simp add: st')
    qed
  next
    fix t j assume a: "verificationTokenIndex st' t = Some j"
    then have v: "verificationTokenIndex st t = Some j" by (simp add: st')
    from c v have r: "t \<noteq> [] \<and> (\<exists>x. users st j = Some x \<and> emailVerificationToken x = Some t)"
      unfolding index_consistent_def by blast
    show "t \<noteq> [] \<and> (\<exists>x. users st' j = Some x \<and> emailVerificationToken x = Some t)"
    proof (cases "j = i")
      case True
      with r u show ?thesis by (simp add: st')
    next
      case False
      with r show ?thesis by (simp add: st')
    qed
  qed
qed

subsection \<open>Index consistency is an invariant of the adapter\<close>

text \<open>
  The empty store is consistent, and \<^verbatim>\<open>createUser\<close> (with a fresh id),
  \<^verbatim>\<open>updateUser\<close>, \<^verbatim>\<open>verifyUserEmail\<close>, \<^verbatim>\<open>updatePassword\<close> and the two clear
  operations keep a consistent store consistent. The two set operations do so for
  non-empty tokens (\<open>setVerificationToken_supersedes\<close>,
  \<open>setPasswordResetToken_supersedes\<close>).
\<close>

lemma index_consistent_empty: "index_consistent emptyStore"
  by (simp add: index_consistent_def emptyStore_def)

lemma createUser_consistent:
  assumes "index_consistent st" and "users st newId = None"
    and "createUser st newId now d = Inr (u, st')"
  shows "index_consistent st'"
proof -
  have other: "j \<noteq> newId" if "users st j = Some x" for j x
    using that assms(2) by auto
  from assms(1) have v: "t \<noteq> [] \<and> (\<exists>x. users st j = Some x \<and> emailVerificationToken x = Some t)"
    if "verificationTokenIndex st t = Some j" for t j
    using that unfolding index_consistent_def by blast
  from assms(1) have r: "t \<noteq> [] \<and> (\<exists>x. users st j = Some x \<and> passwordResetToken x = Some t)"
    if "passwordResetTokenIndex st t = Some j" for t j
    using that unfolding index_consistent_def by blast
  show ?thesis
    unfolding index_consistent_def
  proof (rule conjI; intro allI impI)
    fix t j assume a: "verificationTokenIndex st' t = Some j"
    show "t \<noteq> [] \<and> (\<exists>x. users st' j = Some x \<and> emailVerificationToken x = Some t)"
    proof (cases "j = newId")
      case True
      with a assms(3) v [of t newId] assms(2) show ?thesis
        by (auto simp: createUser_def Let_def truthy_def split: option.splits if_splits)
    next
      case False
      with a assms(3) have "verificationTokenIndex st t = Some j"
        by (auto simp: createUser_def Let_def split: option.splits if_splits)
      from v [OF this] False assms(3) show ?thesis
        by (auto simp: createUser_def Let_def split: option.splits if_splits)
    qed
  next
    fix t j assume a: "passwordResetTokenIndex st' t = Some j"
    with assms(3) have i: "passwordResetTokenIndex st t = Some j"
      by (auto simp: createUser_def Let_def split: option.splits if_splits)
    from r [OF i] obtain x where x: "t \<noteq> []" "users st j = Some x" "passwordResetToken x = Some t"
      by blast
    from other [OF x(2)] x assms(3)
    show "t \<noteq> [] \<and> (\<exists>x. users st' j = Some x \<and> passwordResetToken x = Some t)"
      by (auto simp: createUser_def Let_def split: option.splits if_splits)
  qed
qed


lemma dropOld_consistent:
  assumes c: "\<forall>t j. idx t = Some j \<longrightarrow> t \<noteq> [] \<and> (\<exists>x. us j = Some x \<and> f x = Some t)"
    and u: "us i = Some u"
  shows "\<forall>t j. dropOld idx (f u) t = Some j \<longrightarrow>
           j \<noteq> i \<and> t \<noteq> [] \<and> (\<exists>x. us j = Some x \<and> f x = Some t)"
proof (intro allI impI)
  fix t j assume a: "dropOld idx (f u) t = Some j"
  then have i: "idx t = Some j"
    using dropOld_cases [of idx "f u" t] by auto
  with c obtain x where x: "t \<noteq> []" "us j = Some x" "f x = Some t" by blast
  have "j \<noteq> i"
  proof
    assume "j = i"
    with x u have "f u = Some t" by simp
    with x(1) have "dropOld idx (f u) t = None" by (simp add: dropOld_same)
    with a show False by simp
  qed
  with x show "j \<noteq> i \<and> t \<noteq> [] \<and> (\<exists>x. us j = Some x \<and> f x = Some t)" by blast
qed

lemma reindexToken_consistent:
  assumes c: "\<forall>t j. idx t = Some j \<longrightarrow> t \<noteq> [] \<and> (\<exists>x. us j = Some x \<and> f x = Some t)"
    and u: "us i = Some u"
    and f: "f u' = spread (f u) new"
  shows "\<forall>t j. reindexToken idx i (f u) new t = Some j \<longrightarrow>
           t \<noteq> [] \<and> (\<exists>x. (us(i \<mapsto> u')) j = Some x \<and> f x = Some t)"
proof (cases new)
  case None
  then have "reindexToken idx i (f u) new = idx" "f u' = f u"
    using f by (simp_all add: reindexToken_def spread_def)
  have "t \<noteq> [] \<and> (\<exists>x. (us(i \<mapsto> u')) j = Some x \<and> f x = Some t)"
    if a: "idx t = Some j" for t j
  proof -
    from c a obtain x where x: "t \<noteq> []" "us j = Some x" "f x = Some t" by blast
    show ?thesis
    proof (cases "j = i")
      case True
      with x u have "f u = Some t" by simp
      with True x(1) \<open>f u' = f u\<close> show ?thesis by simp
    next
      case False
      with x show ?thesis by simp
    qed
  qed
  with \<open>reindexToken idx i (f u) new = idx\<close> show ?thesis by simp
next
  case (Some nt)
  note d = dropOld_consistent [OF c u]
  have r: "reindexToken idx i (f u) new =
       (case nt of Some t \<Rightarrow> if truthy t then (dropOld idx (f u))(t \<mapsto> i) else dropOld idx (f u)
        | None \<Rightarrow> dropOld idx (f u))"
    using Some by (simp add: reindexToken_def dropOld_def Let_def split: option.splits)
  have fu: "f u' = nt" using f Some by (simp add: spread_def)
  show ?thesis
  proof (intro allI impI)
    fix t j assume a: "reindexToken idx i (f u) new t = Some j"
    show "t \<noteq> [] \<and> (\<exists>x. (us(i \<mapsto> u')) j = Some x \<and> f x = Some t)"
    proof (cases "nt = Some t \<and> truthy t")
      case True
      with a r have "j = i" by simp
      with True fu show ?thesis by (simp add: truthy_def)
    next
      case False
      with a r have "dropOld idx (f u) t = Some j"
        by (auto split: option.splits if_splits)
      with d have "j \<noteq> i \<and> t \<noteq> [] \<and> (\<exists>x. us j = Some x \<and> f x = Some t)" by blast
      then show ?thesis by simp
    qed
  qed
qed

lemma updateUser_consistent:
  assumes "index_consistent st" and "updateUser st i now d = Inr (u', st')"
  shows "index_consistent st'"
proof -
  from assms(2) obtain u where u: "users st i = Some u"
    by (auto simp: updateUser_def split: option.splits)
  from assms(2) u have
    us: "users st' = (users st)(i \<mapsto> u')"
    and vi: "verificationTokenIndex st' = reindexToken (verificationTokenIndex st) i
               (emailVerificationToken u) (upd_emailVerificationToken d)"
    and ri: "passwordResetTokenIndex st' = reindexToken (passwordResetTokenIndex st) i
               (passwordResetToken u) (upd_passwordResetToken d)"
    and fv: "emailVerificationToken u'
               = spread (emailVerificationToken u) (upd_emailVerificationToken d)"
    and fr: "passwordResetToken u' = spread (passwordResetToken u) (upd_passwordResetToken d)"
    by (auto simp: updateUser_def Let_def)
  from assms(1) have
    cv: "\<forall>t j. verificationTokenIndex st t = Some j \<longrightarrow>
           t \<noteq> [] \<and> (\<exists>x. users st j = Some x \<and> emailVerificationToken x = Some t)"
    and cr: "\<forall>t j. passwordResetTokenIndex st t = Some j \<longrightarrow>
           t \<noteq> [] \<and> (\<exists>x. users st j = Some x \<and> passwordResetToken x = Some t)"
    unfolding index_consistent_def by blast+
  show ?thesis
    unfolding index_consistent_def us vi ri
    using reindexToken_consistent [OF cv u fv] reindexToken_consistent [OF cr u fr]
    by blast
qed

lemma verifyUserEmail_consistent:
  assumes "index_consistent st" and "verifyUserEmail st i nowV now = Inr st'"
  shows "index_consistent st'"
  using assms updateUser_consistent
  by (fastforce simp: verifyUserEmail_def split: sum.splits)

lemma updatePassword_consistent:
  assumes "index_consistent st" and "updatePassword st i pwHash now = Inr st'"
  shows "index_consistent st'"
  using assms updateUser_consistent
  by (fastforce simp: updatePassword_def split: sum.splits)

lemma clearVerificationToken_consistent:
  assumes "index_consistent st"
  shows "index_consistent (clearVerificationToken st i now)"
proof (cases "users st i")
  case None
  then show ?thesis using assms by (simp add: clearVerificationToken_def)
next
  case (Some u)
  from assms have
    cv: "\<forall>t j. verificationTokenIndex st t = Some j \<longrightarrow>
           t \<noteq> [] \<and> (\<exists>x. users st j = Some x \<and> emailVerificationToken x = Some t)"
    and cr: "\<forall>t j. passwordResetTokenIndex st t = Some j \<longrightarrow>
           t \<noteq> [] \<and> (\<exists>x. users st j = Some x \<and> passwordResetToken x = Some t)"
    unfolding index_consistent_def by blast+
  note d = dropOld_consistent [OF cv Some]
  show ?thesis
    unfolding index_consistent_def
  proof (rule conjI; intro allI impI)
    fix t j
    assume "verificationTokenIndex (clearVerificationToken st i now) t = Some j"
    then have "dropOld (verificationTokenIndex st) (emailVerificationToken u) t = Some j"
      using Some by (simp add: clearVerificationToken_def Let_def)
    with d have "j \<noteq> i \<and> t \<noteq> [] \<and> (\<exists>x. users st j = Some x \<and> emailVerificationToken x = Some t)"
      by blast
    then show "t \<noteq> [] \<and> (\<exists>x. users (clearVerificationToken st i now) j = Some x
                 \<and> emailVerificationToken x = Some t)"
      using Some by (simp add: clearVerificationToken_def Let_def)
  next
    fix t j
    assume "passwordResetTokenIndex (clearVerificationToken st i now) t = Some j"
    then have "passwordResetTokenIndex st t = Some j"
      using Some by (simp add: clearVerificationToken_def Let_def)
    with cr obtain x where "t \<noteq> []" "users st j = Some x" "passwordResetToken x = Some t"
      by blast
    then show "t \<noteq> [] \<and> (\<exists>x. users (clearVerificationToken st i now) j = Some x
                 \<and> passwordResetToken x = Some t)"
      using Some by (cases "j = i") (auto simp: clearVerificationToken_def Let_def)
  qed
qed

lemma clearPasswordResetToken_consistent:
  assumes "index_consistent st"
  shows "index_consistent (clearPasswordResetToken st i now)"
proof (cases "users st i")
  case None
  then show ?thesis using assms by (simp add: clearPasswordResetToken_def)
next
  case (Some u)
  from assms have
    cv: "\<forall>t j. verificationTokenIndex st t = Some j \<longrightarrow>
           t \<noteq> [] \<and> (\<exists>x. users st j = Some x \<and> emailVerificationToken x = Some t)"
    and cr: "\<forall>t j. passwordResetTokenIndex st t = Some j \<longrightarrow>
           t \<noteq> [] \<and> (\<exists>x. users st j = Some x \<and> passwordResetToken x = Some t)"
    unfolding index_consistent_def by blast+
  note d = dropOld_consistent [OF cr Some]
  show ?thesis
    unfolding index_consistent_def
  proof (rule conjI; intro allI impI)
    fix t j
    assume "passwordResetTokenIndex (clearPasswordResetToken st i now) t = Some j"
    then have "dropOld (passwordResetTokenIndex st) (passwordResetToken u) t = Some j"
      using Some by (simp add: clearPasswordResetToken_def Let_def)
    with d have "j \<noteq> i \<and> t \<noteq> [] \<and> (\<exists>x. users st j = Some x \<and> passwordResetToken x = Some t)"
      by blast
    then show "t \<noteq> [] \<and> (\<exists>x. users (clearPasswordResetToken st i now) j = Some x
                 \<and> passwordResetToken x = Some t)"
      using Some by (simp add: clearPasswordResetToken_def Let_def)
  next
    fix t j
    assume "verificationTokenIndex (clearPasswordResetToken st i now) t = Some j"
    then have "verificationTokenIndex st t = Some j"
      using Some by (simp add: clearPasswordResetToken_def Let_def)
    with cv obtain x where "t \<noteq> []" "users st j = Some x" "emailVerificationToken x = Some t"
      by blast
    then show "t \<noteq> [] \<and> (\<exists>x. users (clearPasswordResetToken st i now) j = Some x
                 \<and> emailVerificationToken x = Some t)"
      using Some by (cases "j = i") (auto simp: clearPasswordResetToken_def Let_def)
  qed
qed

section \<open>Properties of the rate limiter\<close>

lemma cleanup_keeps_live:
  assumes "rateLimitStore rs k = Some e" "\<not> resetAt e < now0"
  shows "rateLimitStore (cleanupExpiredEntries rs now0) k = Some e"
  using assms by (simp add: cleanupExpiredEntries_def)

lemma cleanup_keeps_absent:
  assumes "rateLimitStore rs k = None"
  shows "rateLimitStore (cleanupExpiredEntries rs now0) k = None"
  using assms by (simp add: cleanupExpiredEntries_def)

lemma cleanup_of_present:
  assumes "rateLimitStore rs k = Some e"
  shows "rateLimitStore (cleanupExpiredEntries rs now0) k = None
       \<or> rateLimitStore (cleanupExpiredEntries rs now0) k = Some e"
  using assms by (simp add: cleanupExpiredEntries_def)

text \<open>
  C9. With \<open>limit \<ge> 1\<close>: when the key's stored entry has \<open>count \<ge> limit\<close> and has not
  expired (and the clock did not run backwards between the sweep's reading \<open>sweep\<close> and the
  check's reading \<open>now\<close>), the call returns \<open>allowed = False\<close> and the key's stored entry
  is exactly the one stored before: neither \<open>count\<close> nor \<open>resetAt\<close> changes. In every
  case the returned \<open>remaining\<close> is non-negative.
\<close>

theorem denied_request_leaves_entry:
  assumes "1 \<le> limit config"
  shows "(rateLimitStore rs (rateLimitKey ident endpoint) = Some e
          \<and> limit config \<le> count e \<and> \<not> resetAt e < now \<and> sweep \<le> now
          \<longrightarrow> \<not> allowed (fst (checkRateLimit rs ident endpoint config sweep now))
            \<and> rateLimitStore (snd (checkRateLimit rs ident endpoint config sweep now))
                (rateLimitKey ident endpoint) = Some e)
       \<and> 0 \<le> remaining (fst (checkRateLimit rs ident endpoint config sweep now))"
proof (intro conjI impI)
  assume a: "rateLimitStore rs (rateLimitKey ident endpoint) = Some e
          \<and> limit config \<le> count e \<and> \<not> resetAt e < now \<and> sweep \<le> now"
  then have k: "rateLimitStore (cleanupExpiredEntries rs sweep)
                  (rateLimitKey ident endpoint) = Some e"
    by (intro cleanup_keeps_live) auto
  show "\<not> allowed (fst (checkRateLimit rs ident endpoint config sweep now))"
    using a k by (simp add: checkRateLimit_def Let_def)
  show "rateLimitStore (snd (checkRateLimit rs ident endpoint config sweep now))
                (rateLimitKey ident endpoint) = Some e"
    using a k by (simp add: checkRateLimit_def Let_def)
next
  show "0 \<le> remaining (fst (checkRateLimit rs ident endpoint config sweep now))"
    using assms by (simp add: checkRateLimit_def Let_def split: option.splits)
qed

theorem denied_request_leaves_entry_witness:
  "1 \<le> limit LOGIN
   \<and> rateLimitStore limiterFull (rateLimitKey ''ip'' ''login'')
       = Some \<lparr>count = 10, resetAt = 1000\<rparr>
   \<and> limit LOGIN \<le> count \<lparr>count = 10, resetAt = 1000\<rparr>
   \<and> \<not> resetAt \<lparr>count = 10, resetAt = 1000\<rparr> < 600 \<and> (500::int) \<le> 600
   \<and> \<not> allowed (fst (checkRateLimit limiterFull ''ip'' ''login'' LOGIN 500 600))
   \<and> rateLimitStore (snd (checkRateLimit limiterFull ''ip'' ''login'' LOGIN 500 600))
        (rateLimitKey ''ip'' ''login'') = Some \<lparr>count = 10, resetAt = 1000\<rparr>
   \<and> 0 \<le> remaining (fst (checkRateLimit limiterFull ''ip'' ''login'' LOGIN 500 600))"
proof -
  have h: "1 \<le> limit LOGIN" by (simp add: LOGIN_def)
  have p: "rateLimitStore limiterFull (rateLimitKey ''ip'' ''login'')
       = Some \<lparr>count = 10, resetAt = 1000\<rparr>
   \<and> limit LOGIN \<le> count \<lparr>count = 10, resetAt = 1000\<rparr>
   \<and> \<not> resetAt \<lparr>count = 10, resetAt = 1000\<rparr> < 600 \<and> (500::int) \<le> 600"
    by (simp add: limiterFull_def rateLimitKey_def LOGIN_def)
  show ?thesis
    using h p denied_request_leaves_entry [OF h, of limiterFull "''ip''" "''login''"
        "\<lparr>count = 10, resetAt = 1000\<rparr>" 600 500]
    by blast
qed

lemma check_fresh:
  assumes "rateLimitStore rs (rateLimitKey ident endpoint) = None
         \<or> (\<exists>e. rateLimitStore rs (rateLimitKey ident endpoint) = Some e \<and> resetAt e < now)"
  shows "fst (checkRateLimit rs ident endpoint config sweep now)
           = \<lparr>allowed = True, remaining = limit config - 1,
              res_resetAt = now + windowSeconds config * 1000\<rparr>
       \<and> rateLimitStore (snd (checkRateLimit rs ident endpoint config sweep now))
             (rateLimitKey ident endpoint)
           = Some \<lparr>count = 1, resetAt = now + windowSeconds config * 1000\<rparr>"
proof -
  let ?k = "rateLimitKey ident endpoint"
  from assms have "rateLimitStore (cleanupExpiredEntries rs sweep) ?k = None
      \<or> (\<exists>e. rateLimitStore (cleanupExpiredEntries rs sweep) ?k = Some e \<and> resetAt e < now)"
    using cleanup_keeps_absent cleanup_of_present by metis
  then show ?thesis
    by (auto simp add: checkRateLimit_def Let_def)
qed

lemma check_denied:
  assumes "rateLimitStore rs (rateLimitKey ident endpoint) = Some e"
    and "\<not> resetAt e < now" and "sweep \<le> now" and "limit config \<le> count e"
  shows "fst (checkRateLimit rs ident endpoint config sweep now)
           = \<lparr>allowed = False, remaining = 0, res_resetAt = resetAt e\<rparr>
       \<and> rateLimitStore (snd (checkRateLimit rs ident endpoint config sweep now))
             (rateLimitKey ident endpoint) = Some e"
proof -
  have "rateLimitStore (cleanupExpiredEntries rs sweep) (rateLimitKey ident endpoint) = Some e"
    using assms by (intro cleanup_keeps_live) auto
  then show ?thesis using assms
    by (simp add: checkRateLimit_def Let_def)
qed

lemma check_increment:
  assumes "rateLimitStore rs (rateLimitKey ident endpoint) = Some e"
    and "\<not> resetAt e < now" and "sweep \<le> now" and "count e < limit config"
  shows "fst (checkRateLimit rs ident endpoint config sweep now)
           = \<lparr>allowed = True, remaining = limit config - (count e + 1), res_resetAt = resetAt e\<rparr>
       \<and> rateLimitStore (snd (checkRateLimit rs ident endpoint config sweep now))
             (rateLimitKey ident endpoint) = Some (e\<lparr>count := count e + 1\<rparr>)"
proof -
  have "rateLimitStore (cleanupExpiredEntries rs sweep) (rateLimitKey ident endpoint) = Some e"
    using assms by (intro cleanup_keeps_live) auto
  then show ?thesis using assms
    by (simp add: checkRateLimit_def Let_def)
qed

lemma run_checks_within_limit:
  assumes "rateLimitStore rs (rateLimitKey ident endpoint) = Some \<lparr>count = c, resetAt = r\<rparr>"
    and "\<forall>(b0, b) \<in> set ts. b0 \<le> b \<and> b \<le> r"
    and "c + int (length ts) \<le> limit config"
  shows "length (fst (run_checks rs ident endpoint config ts)) = length ts
       \<and> (\<forall>res \<in> set (fst (run_checks rs ident endpoint config ts)). allowed res)
       \<and> rateLimitStore (snd (run_checks rs ident endpoint config ts))
            (rateLimitKey ident endpoint)
           = Some \<lparr>count = c + int (length ts), resetAt = r\<rparr>"
  using assms
proof (induction ts arbitrary: rs c)
  case Nil
  then show ?case by simp
next
  case (Cons t ts)
  obtain b0 b where t: "t = (b0, b)" by (cases t)
  let ?e = "\<lparr>count = c, resetAt = r\<rparr>"
  from Cons.prems t have tb: "b0 \<le> b" "\<not> resetAt ?e < b" and lt: "count ?e < limit config"
    by auto
  note step = check_increment [OF Cons.prems(1) tb(2) tb(1) lt]
  obtain res rs1 where c1: "checkRateLimit rs ident endpoint config b0 b = (res, rs1)"
    by (cases "checkRateLimit rs ident endpoint config b0 b")
  with step have r1: "allowed res"
    and s1: "rateLimitStore rs1 (rateLimitKey ident endpoint) = Some \<lparr>count = c + 1, resetAt = r\<rparr>"
    by auto
  have "\<forall>(b0, b) \<in> set ts. b0 \<le> b \<and> b \<le> r" using Cons.prems(2) by simp
  moreover have "(c + 1) + int (length ts) \<le> limit config" using Cons.prems(3) by simp
  ultimately have ih: "length (fst (run_checks rs1 ident endpoint config ts)) = length ts
       \<and> (\<forall>res \<in> set (fst (run_checks rs1 ident endpoint config ts)). allowed res)
       \<and> rateLimitStore (snd (run_checks rs1 ident endpoint config ts))
            (rateLimitKey ident endpoint)
           = Some \<lparr>count = (c + 1) + int (length ts), resetAt = r\<rparr>"
    using Cons.IH [OF s1] by blast
  show ?case
    using ih r1 c1 t by (simp add: split_beta add.assoc)
qed


text \<open>
  C6. \<^verbatim>\<open>checkRateLimit\<close> is the fixed-window state machine of a key. Timestamps are
  in milliseconds, so the window of \<open>windowSeconds\<close> seconds ends at
  \<open>now + windowSeconds * 1000\<close>; \<open>sweep\<close> is the clock reading of the sweep that
  precedes the check, and where an existing live entry is involved the clock is taken
  not to run backwards (\<open>sweep \<le> now\<close>).
  \<^item> No entry, or an entry whose \<open>resetAt\<close> has passed: a fresh entry with
    \<open>count = 1\<close> and \<open>resetAt = now + window\<close> is stored and the call is allowed.
  \<^item> Otherwise, \<open>count \<ge> limit\<close>: the call is denied with \<open>remaining = 0\<close> and the
    entry's \<open>resetAt\<close>; the entry is unchanged.
  \<^item> Otherwise the count is incremented and the call is allowed with
    \<open>remaining = limit - count\<close> (the count after the increment).
  \<^item> Consequently, with limit \<open>n \<ge> 1\<close> and a key that starts with no live entry: the
    first \<open>n\<close> requests inside one window are all allowed, request \<open>n + 1\<close> inside the
    window is rejected, and the first request after \<open>resetAt\<close> has passed is allowed.
\<close>

theorem checkRateLimit_fixed_window:
  "(rateLimitStore rs (rateLimitKey ident endpoint) = None
      \<or> (\<exists>e. rateLimitStore rs (rateLimitKey ident endpoint) = Some e \<and> resetAt e < now)
    \<longrightarrow> fst (checkRateLimit rs ident endpoint config sweep now)
          = \<lparr>allowed = True, remaining = limit config - 1,
             res_resetAt = now + windowSeconds config * 1000\<rparr>
      \<and> rateLimitStore (snd (checkRateLimit rs ident endpoint config sweep now))
            (rateLimitKey ident endpoint)
          = Some \<lparr>count = 1, resetAt = now + windowSeconds config * 1000\<rparr>)
   \<and> (rateLimitStore rs (rateLimitKey ident endpoint) = Some e
        \<and> \<not> resetAt e < now \<and> sweep \<le> now \<and> limit config \<le> count e
      \<longrightarrow> fst (checkRateLimit rs ident endpoint config sweep now)
            = \<lparr>allowed = False, remaining = 0, res_resetAt = resetAt e\<rparr>
        \<and> rateLimitStore (snd (checkRateLimit rs ident endpoint config sweep now))
              (rateLimitKey ident endpoint) = Some e)
   \<and> (rateLimitStore rs (rateLimitKey ident endpoint) = Some e
        \<and> \<not> resetAt e < now \<and> sweep \<le> now \<and> count e < limit config
      \<longrightarrow> fst (checkRateLimit rs ident endpoint config sweep now)
            = \<lparr>allowed = True, remaining = limit config - (count e + 1),
               res_resetAt = resetAt e\<rparr>
        \<and> rateLimitStore (snd (checkRateLimit rs ident endpoint config sweep now))
              (rateLimitKey ident endpoint) = Some (e\<lparr>count := count e + 1\<rparr>))
   \<and> ((rateLimitStore rs (rateLimitKey ident endpoint) = None
          \<or> (\<exists>e. rateLimitStore rs (rateLimitKey ident endpoint) = Some e \<and> resetAt e < now))
        \<and> limit config = int n \<and> 1 \<le> n \<and> length ts = n - 1
        \<and> (\<forall>(b0, b) \<in> set ts. b0 \<le> b \<and> b \<le> now + windowSeconds config * 1000)
        \<and> dSweep \<le> d \<and> d \<le> now + windowSeconds config * 1000
        \<and> now + windowSeconds config * 1000 < c
      \<longrightarrow> length (fst (run_checks rs ident endpoint config ((sweep, now) # ts))) = n
        \<and> (\<forall>res \<in> set (fst (run_checks rs ident endpoint config ((sweep, now) # ts))).
              allowed res)
        \<and> \<not> allowed (fst (checkRateLimit
              (snd (run_checks rs ident endpoint config ((sweep, now) # ts)))
              ident endpoint config dSweep d))
        \<and> allowed (fst (checkRateLimit
              (snd (checkRateLimit
                 (snd (run_checks rs ident endpoint config ((sweep, now) # ts)))
                 ident endpoint config dSweep d))
              ident endpoint config cSweep c)))"
proof (intro conjI impI)
  assume "rateLimitStore rs (rateLimitKey ident endpoint) = None
      \<or> (\<exists>e. rateLimitStore rs (rateLimitKey ident endpoint) = Some e \<and> resetAt e < now)"
  from check_fresh [OF this]
  show "fst (checkRateLimit rs ident endpoint config sweep now)
          = \<lparr>allowed = True, remaining = limit config - 1,
             res_resetAt = now + windowSeconds config * 1000\<rparr>"
    and "rateLimitStore (snd (checkRateLimit rs ident endpoint config sweep now))
            (rateLimitKey ident endpoint)
          = Some \<lparr>count = 1, resetAt = now + windowSeconds config * 1000\<rparr>"
    by blast+
next
  assume a: "rateLimitStore rs (rateLimitKey ident endpoint) = Some e
        \<and> \<not> resetAt e < now \<and> sweep \<le> now \<and> limit config \<le> count e"
  then have "fst (checkRateLimit rs ident endpoint config sweep now)
            = \<lparr>allowed = False, remaining = 0, res_resetAt = resetAt e\<rparr>
        \<and> rateLimitStore (snd (checkRateLimit rs ident endpoint config sweep now))
              (rateLimitKey ident endpoint) = Some e"
    by (intro check_denied) auto
  then show "fst (checkRateLimit rs ident endpoint config sweep now)
            = \<lparr>allowed = False, remaining = 0, res_resetAt = resetAt e\<rparr>"
    and "rateLimitStore (snd (checkRateLimit rs ident endpoint config sweep now))
              (rateLimitKey ident endpoint) = Some e"
    by blast+
next
  assume a: "rateLimitStore rs (rateLimitKey ident endpoint) = Some e
        \<and> \<not> resetAt e < now \<and> sweep \<le> now \<and> count e < limit config"
  then have "fst (checkRateLimit rs ident endpoint config sweep now)
            = \<lparr>allowed = True, remaining = limit config - (count e + 1),
               res_resetAt = resetAt e\<rparr>
        \<and> rateLimitStore (snd (checkRateLimit rs ident endpoint config sweep now))
              (rateLimitKey ident endpoint) = Some (e\<lparr>count := count e + 1\<rparr>)"
    by (intro check_increment) auto
  then show "fst (checkRateLimit rs ident endpoint config sweep now)
            = \<lparr>allowed = True, remaining = limit config - (count e + 1),
               res_resetAt = resetAt e\<rparr>"
    and "rateLimitStore (snd (checkRateLimit rs ident endpoint config sweep now))
              (rateLimitKey ident endpoint) = Some (e\<lparr>count := count e + 1\<rparr>)"
    by blast+
next
  let ?k = "rateLimitKey ident endpoint"
  let ?r = "now + windowSeconds config * 1000"
  let ?first = "checkRateLimit rs ident endpoint config sweep now"
  let ?rest = "run_checks (snd ?first) ident endpoint config ts"
  let ?run = "run_checks rs ident endpoint config ((sweep, now) # ts)"
  assume a: "(rateLimitStore rs ?k = None
          \<or> (\<exists>e. rateLimitStore rs ?k = Some e \<and> resetAt e < now))
        \<and> limit config = int n \<and> 1 \<le> n \<and> length ts = n - 1
        \<and> (\<forall>(b0, b) \<in> set ts. b0 \<le> b \<and> b \<le> ?r)
        \<and> dSweep \<le> d \<and> d \<le> ?r \<and> ?r < c"
  then have fresh: "rateLimitStore rs ?k = None
          \<or> (\<exists>e. rateLimitStore rs ?k = Some e \<and> resetAt e < now)" by blast
  have f1: "allowed (fst ?first)"
    and s1: "rateLimitStore (snd ?first) ?k = Some \<lparr>count = 1, resetAt = ?r\<rparr>"
    using check_fresh [OF fresh, of config sweep] by auto
  have win: "\<forall>(b0, b) \<in> set ts. b0 \<le> b \<and> b \<le> ?r" using a by blast
  have le: "1 + int (length ts) \<le> limit config" using a by auto
  note rest = run_checks_within_limit [OF s1 win le]
  have run: "fst ?run = fst ?first # fst ?rest" "snd ?run = snd ?rest"
    by (simp_all add: split_beta)
  have cnt: "rateLimitStore (snd ?run) ?k = Some \<lparr>count = int n, resetAt = ?r\<rparr>"
    using rest run a by auto
  show "length (fst ?run) = n" using rest run a by auto
  show "\<forall>res \<in> set (fst ?run). allowed res" using rest run f1 by auto
  have den: "fst (checkRateLimit (snd ?run) ident endpoint config dSweep d)
           = \<lparr>allowed = False, remaining = 0, res_resetAt = ?r\<rparr>
       \<and> rateLimitStore (snd (checkRateLimit (snd ?run) ident endpoint config dSweep d)) ?k
           = Some \<lparr>count = int n, resetAt = ?r\<rparr>"
    using check_denied [OF cnt, of d dSweep config] a by auto
  then show "\<not> allowed (fst (checkRateLimit (snd ?run) ident endpoint config dSweep d))"
    by simp
  have "rateLimitStore (snd (checkRateLimit (snd ?run) ident endpoint config dSweep d)) ?k = None
      \<or> (\<exists>e. rateLimitStore (snd (checkRateLimit (snd ?run) ident endpoint config dSweep d)) ?k
              = Some e \<and> resetAt e < c)"
    using den a by auto
  from check_fresh [OF this, of config cSweep]
  show "allowed (fst (checkRateLimit (snd (checkRateLimit (snd ?run) ident endpoint config dSweep d))
              ident endpoint config cSweep c))"
    by simp
qed


theorem checkRateLimit_fixed_window_witness:
  "rateLimitStore limiter0 (rateLimitKey ''ip'' ''login'') = None
   \<and> fst (checkRateLimit limiter0 ''ip'' ''login'' twoPerMinute 1000 1000)
       = \<lparr>allowed = True, remaining = 1, res_resetAt = 61000\<rparr>
   \<and> rateLimitStore (snd (checkRateLimit limiter0 ''ip'' ''login'' twoPerMinute 1000 1000))
         (rateLimitKey ''ip'' ''login'') = Some \<lparr>count = 1, resetAt = 61000\<rparr>
   \<and> rateLimitStore limiterFull (rateLimitKey ''ip'' ''login'')
       = Some \<lparr>count = 10, resetAt = 1000\<rparr>
   \<and> fst (checkRateLimit limiterFull ''ip'' ''login'' LOGIN 500 600)
       = \<lparr>allowed = False, remaining = 0, res_resetAt = 1000\<rparr>
   \<and> rateLimitStore limiterHalf (rateLimitKey ''ip'' ''login'')
       = Some \<lparr>count = 4, resetAt = 1000\<rparr>
   \<and> fst (checkRateLimit limiterHalf ''ip'' ''login'' LOGIN 500 600)
       = \<lparr>allowed = True, remaining = 5, res_resetAt = 1000\<rparr>
   \<and> rateLimitStore (snd (checkRateLimit limiterHalf ''ip'' ''login'' LOGIN 500 600))
         (rateLimitKey ''ip'' ''login'') = Some \<lparr>count = 5, resetAt = 1000\<rparr>
   \<and> map allowed (fst (run_checks limiter0 ''ip'' ''login'' twoPerMinute
                          [(1000, 1000), (2000, 2000)])) = [True, True]
   \<and> \<not> allowed (fst (checkRateLimit
         (snd (run_checks limiter0 ''ip'' ''login'' twoPerMinute [(1000, 1000), (2000, 2000)]))
         ''ip'' ''login'' twoPerMinute 3000 3000))
   \<and> allowed (fst (checkRateLimit
         (snd (checkRateLimit
            (snd (run_checks limiter0 ''ip'' ''login'' twoPerMinute
                    [(1000, 1000), (2000, 2000)]))
            ''ip'' ''login'' twoPerMinute 3000 3000))
         ''ip'' ''login'' twoPerMinute 70000 70000))"
proof -
  have h1: "rateLimitStore limiter0 (rateLimitKey ''ip'' ''login'') = None"
    by (simp add: limiter0_def)
  have h2: "rateLimitStore limiterFull (rateLimitKey ''ip'' ''login'')
              = Some \<lparr>count = 10, resetAt = 1000\<rparr>
            \<and> \<not> resetAt \<lparr>count = 10, resetAt = 1000\<rparr> < 600 \<and> (500::int) \<le> 600
            \<and> limit LOGIN \<le> count \<lparr>count = 10, resetAt = 1000\<rparr>"
    by (simp add: limiterFull_def rateLimitKey_def LOGIN_def)
  have h3: "rateLimitStore limiterHalf (rateLimitKey ''ip'' ''login'')
              = Some \<lparr>count = 4, resetAt = 1000\<rparr>
            \<and> \<not> resetAt \<lparr>count = 4, resetAt = 1000\<rparr> < 600 \<and> (500::int) \<le> 600
            \<and> count \<lparr>count = 4, resetAt = 1000\<rparr> < limit LOGIN"
    by (simp add: limiterHalf_def rateLimitKey_def LOGIN_def)
  have h4: "(rateLimitStore limiter0 (rateLimitKey ''ip'' ''login'') = None
          \<or> (\<exists>e. rateLimitStore limiter0 (rateLimitKey ''ip'' ''login'') = Some e
                \<and> resetAt e < 1000))
        \<and> limit twoPerMinute = int 2 \<and> 1 \<le> (2::nat) \<and> length [(2000::int, 2000::int)] = 2 - 1
        \<and> (\<forall>(b0, b) \<in> set [(2000::int, 2000::int)].
              b0 \<le> b \<and> b \<le> 1000 + windowSeconds twoPerMinute * 1000)
        \<and> (3000::int) \<le> 3000 \<and> 3000 \<le> 1000 + windowSeconds twoPerMinute * 1000
        \<and> 1000 + windowSeconds twoPerMinute * 1000 < 70000"
    using h1 by (simp add: twoPerMinute_def)
  note t1 = checkRateLimit_fixed_window [where rs = limiter0 and ident = "''ip''"
      and endpoint = "''login''" and config = twoPerMinute and sweep = 1000 and now = 1000
      and n = 2 and ts = "[(2000, 2000)]" and dSweep = 3000 and d = 3000 and cSweep = 70000
      and c = 70000]
  note t2 = checkRateLimit_fixed_window [where rs = limiterFull and ident = "''ip''"
      and endpoint = "''login''" and config = LOGIN and sweep = 500 and now = 600
      and e = "\<lparr>count = 10, resetAt = 1000\<rparr>"]
  note t3 = checkRateLimit_fixed_window [where rs = limiterHalf and ident = "''ip''"
      and endpoint = "''login''" and config = LOGIN and sweep = 500 and now = 600
      and e = "\<lparr>count = 4, resetAt = 1000\<rparr>"]
  have c1: "fst (checkRateLimit limiter0 ''ip'' ''login'' twoPerMinute 1000 1000)
       = \<lparr>allowed = True, remaining = 1, res_resetAt = 61000\<rparr>
     \<and> rateLimitStore (snd (checkRateLimit limiter0 ''ip'' ''login'' twoPerMinute 1000 1000))
         (rateLimitKey ''ip'' ''login'') = Some \<lparr>count = 1, resetAt = 61000\<rparr>"
    using t1 h1 by (simp add: twoPerMinute_def)
  have c2: "fst (checkRateLimit limiterFull ''ip'' ''login'' LOGIN 500 600)
       = \<lparr>allowed = False, remaining = 0, res_resetAt = 1000\<rparr>"
    using t2 h2 by simp
  have c3: "fst (checkRateLimit limiterHalf ''ip'' ''login'' LOGIN 500 600)
       = \<lparr>allowed = True, remaining = 5, res_resetAt = 1000\<rparr>
     \<and> rateLimitStore (snd (checkRateLimit limiterHalf ''ip'' ''login'' LOGIN 500 600))
         (rateLimitKey ''ip'' ''login'') = Some \<lparr>count = 5, resetAt = 1000\<rparr>"
    using t3 h3 by (simp add: LOGIN_def)
  have c4: "length (fst (run_checks limiter0 ''ip'' ''login'' twoPerMinute
                     [(1000, 1000), (2000, 2000)])) = 2
   \<and> (\<forall>res \<in> set (fst (run_checks limiter0 ''ip'' ''login'' twoPerMinute
                            [(1000, 1000), (2000, 2000)])). allowed res)
   \<and> \<not> allowed (fst (checkRateLimit
         (snd (run_checks limiter0 ''ip'' ''login'' twoPerMinute [(1000, 1000), (2000, 2000)]))
         ''ip'' ''login'' twoPerMinute 3000 3000))
   \<and> allowed (fst (checkRateLimit
         (snd (checkRateLimit
            (snd (run_checks limiter0 ''ip'' ''login'' twoPerMinute
                    [(1000, 1000), (2000, 2000)]))
            ''ip'' ''login'' twoPerMinute 3000 3000))
         ''ip'' ''login'' twoPerMinute 70000 70000))"
    using t1 h4 by blast
  have two: "map allowed xs = [True, True]"
    if "length xs = 2" and "\<forall>res \<in> set xs. allowed res" for xs :: "rateLimitResult list"
    using that by (auto simp: length_Suc_conv numeral_2_eq_2)
  have c5: "map allowed (fst (run_checks limiter0 ''ip'' ''login'' twoPerMinute
                          [(1000, 1000), (2000, 2000)])) = [True, True]"
    using c4 by (intro two) blast+
  show ?thesis
    using h1 h2 c1 c2 h3 c3 c4 c5 by blast
qed

section \<open>Properties of the route middleware\<close>

lemma protected_set:
  "isProtectedRoute p \<longleftrightarrow> p = ''/dashboard'' \<or> prefix ''/dashboard/'' p"
  by (simp add: isProtectedRoute_def PROTECTED_ROUTES_def)

lemma auth_set:
  "isAuthRoute p \<longleftrightarrow>
     p \<in> {''/'', ''/login'', ''/register'', ''/forgot-password'', ''/reset-password'',
          ''/verify-email''}
     \<or> prefix ''/verify-email/'' p"
  by (auto simp add: isAuthRoute_def AUTH_ROUTES_def)

text \<open>
  C8. The gate decision. Once \<^verbatim>\<open>validateSecret\<close> passes (the secret was validated
  before, or is set, or the process is not in production), the middleware returns a
  decision for every path \<open>p\<close> and session token: a protected path without a session
  is redirected to the login page carrying \<open>p\<close> as \<^verbatim>\<open>callbackUrl\<close>; a public-only auth
  path with a session is redirected to \<^verbatim>\<open>/dashboard\<close>; every other request passes.
  The protected set is \<^verbatim>\<open>/dashboard\<close> and the paths below it; the auth set is
  described by \<open>auth_set\<close>.
\<close>

theorem gate_decision:
  assumes "secretValidated \<or> truthy_opt secret \<or> \<not> production"
  shows "\<exists>g v. middleware secretValidated secret production p token = Inr (g, v)
       \<and> (isProtectedRoute p \<and> token = None \<longrightarrow> g = RedirectLogin p)
       \<and> (isAuthRoute p \<and> token \<noteq> None \<longrightarrow> g = RedirectDashboard)
       \<and> (\<not> (isProtectedRoute p \<and> token = None) \<and> \<not> (isAuthRoute p \<and> token \<noteq> None)
            \<longrightarrow> g = Next)"
  using assms
  by (auto simp: middleware_def validateSecret_def Let_def)

theorem gate_decision_witness:
  "(False \<or> truthy_opt (Some ''s3cret'') \<or> \<not> True)
   \<and> isProtectedRoute ''/dashboard/settings''
   \<and> middleware False (Some ''s3cret'') True ''/dashboard/settings'' (None :: unit option)
     = Inr (RedirectLogin ''/dashboard/settings'', True)
   \<and> isAuthRoute ''/login''
   \<and> middleware False (Some ''s3cret'') True ''/login'' (Some ())
     = Inr (RedirectDashboard, True)
   \<and> \<not> isProtectedRoute ''/login''
   \<and> middleware False (Some ''s3cret'') True ''/login'' (None :: unit option)
     = Inr (Next, True)"
proof -
  have h: "False \<or> truthy_opt (Some ''s3cret'') \<or> \<not> True" by (simp add: truthy_def)
  have a: "isProtectedRoute ''/dashboard/settings''" "isAuthRoute ''/login''"
      "\<not> isProtectedRoute ''/login''" "\<not> isAuthRoute ''/dashboard/settings''"
    by (simp_all add: protected_set auth_set)
  have v: "\<And>g w. middleware False (Some ''s3cret'') True p (token :: unit option) = Inr (g, w) \<Longrightarrow> w = True" for p token
    by (auto simp: middleware_def validateSecret_def truthy_def Let_def split: if_splits)
  have m1: "middleware False (Some ''s3cret'') True ''/dashboard/settings'' (None :: unit option)
     = Inr (RedirectLogin ''/dashboard/settings'', True)"
    using gate_decision [OF h, of "''/dashboard/settings''" "None :: unit option"] a v by blast
  have m2: "middleware False (Some ''s3cret'') True ''/login'' (Some ()) = Inr (RedirectDashboard, True)"
    using gate_decision [OF h, of "''/login''" "Some ()"] a v by blast
  have m3: "middleware False (Some ''s3cret'') True ''/login'' (None :: unit option) = Inr (Next, True)"
    using gate_decision [OF h, of "''/login''" "None :: unit option"] a v by blast
  show ?thesis
    by (intro conjI h a m1 m2 m3)
qed

section \<open>Properties of the route handlers\<close>

subsection \<open>Forgot-password: the response does not depend on the account\<close>

lemma applyRateLimit_pass:
  assumes "fst (applyRateLimit rs ident endpoint config sweep now) = None"
  obtains rs' where "applyRateLimit rs ident endpoint config sweep now = (None, rs')"
  using assms by (cases "applyRateLimit rs ident endpoint config sweep now") simp

lemma forgot_password_after_limit:
  assumes "fst (applyRateLimit (rl w) ipHash ''forgot-password'' PASSWORD_RESET ta tb) = None"
    and "truthy e"
  shows "fst (forgot_password_POST w ipHash ta tb (Some e) token tNow tUpd sendOk)
       = (case findUserByEmail (db w) e of
            None \<Rightarrow> Json 200 SuccessBody
          | Some u \<Rightarrow>
              (case setPasswordResetToken (db w) (fa_id u) token (tNow + 60 * 60 * 1000) tUpd of
                 Inl _ \<Rightarrow> internalError
               | Inr _ \<Rightarrow> if sendOk then Json 200 SuccessBody else internalError))"
proof -
  obtain rs' where "applyRateLimit (rl w) ipHash ''forgot-password'' PASSWORD_RESET ta tb
      = (None, rs')"
    using assms(1) by (rule applyRateLimit_pass)
  then show ?thesis
    using assms(2)
    by (simp add: forgot_password_POST_def Let_def split: option.splits sum.splits)
qed

lemma limiter0_pass:
  "fst (applyRateLimit limiter0 ipHash endpoint PASSWORD_RESET 0 0) = None"
  by (simp add: applyRateLimit_def checkRateLimit_def cleanupExpiredEntries_def limiter0_def
      CLEANUP_INTERVAL_MS_def Let_def PASSWORD_RESET_def)

lemma lower_examples:
  "toLowerCase ''a@x.com'' = ''a@x.com''" "toLowerCase ''A@x.com'' = ''a@x.com''"
  "toLowerCase ''b@x.com'' = ''b@x.com''"
  by code_simp+

lemma applyRateLimit_limited:
  assumes "applyRateLimit rs ident endpoint config sweep now = (Some r, rs')"
  shows "\<exists>x. r = RateLimitedResponse x"
  using assms by (auto simp: applyRateLimit_def split: prod.splits if_splits)

lemma verify_email_GET_found:
  assumes "truthy token" and "getVerificationToken st token = Some td"
  shows "verify_email_GET st (Some token) tExp tVer tUpd =
     (if td_expiresAt td < tExp then
        (Json BAD_REQUEST
           (ErrorBody VERIFICATION_TOKEN_EXPIRED (ERROR_MESSAGES VERIFICATION_TOKEN_EXPIRED)), st)
      else (case verifyUserEmail st (td_userId td) tVer tUpd of
              Inl _ \<Rightarrow> (internalError, st)
            | Inr st' \<Rightarrow> (Redirect ''/verify-email/success'', st')))"
  using assms by (simp add: verify_email_GET_def)

lemma verify_email_GET_not_found:
  assumes "truthy token" and "getVerificationToken st token = None"
  shows "verify_email_GET st (Some token) tExp tVer tUpd =
     (Json BAD_REQUEST
        (ErrorBody INVALID_VERIFICATION_TOKEN (ERROR_MESSAGES INVALID_VERIFICATION_TOKEN)), st)"
  using assms by (simp add: verify_email_GET_def)

lemma reset_password_POST_checked:
  assumes "fst (applyRateLimit (rl w) ipHash ''reset-password'' PASSWORD_RESET ta tb) = None"
    and "truthy token" and "8 \<le> length pw"
  shows "fst (reset_password_POST w ipHash ta tb (Some token) (Some pw) tExp pwHash tUpd) =
     (case getPasswordResetToken (db w) token of
        None \<Rightarrow>
          Json BAD_REQUEST (ErrorBody INVALID_RESET_TOKEN (ERROR_MESSAGES INVALID_RESET_TOKEN))
      | Some td \<Rightarrow>
          if td_expiresAt td < tExp then
            Json BAD_REQUEST (ErrorBody RESET_TOKEN_EXPIRED (ERROR_MESSAGES RESET_TOKEN_EXPIRED))
          else (case updatePassword (db w) (td_userId td) pwHash tUpd of
                  Inl _ \<Rightarrow> internalError
                | Inr _ \<Rightarrow> Json 200 SuccessBody))"
    and "db (snd (reset_password_POST w ipHash ta tb (Some token) (Some pw) tExp pwHash tUpd)) =
     (case getPasswordResetToken (db w) token of
        None \<Rightarrow> db w
      | Some td \<Rightarrow>
          if td_expiresAt td < tExp then db w
          else (case updatePassword (db w) (td_userId td) pwHash tUpd of
                  Inl _ \<Rightarrow> db w
                | Inr st' \<Rightarrow> st'))"
proof -
  obtain rs' where r: "applyRateLimit (rl w) ipHash ''reset-password'' PASSWORD_RESET ta tb
      = (None, rs')"
    using assms(1) by (rule applyRateLimit_pass)
  have p: "truthy pw" using assms(3) by (auto simp: truthy_def)
  show "fst (reset_password_POST w ipHash ta tb (Some token) (Some pw) tExp pwHash tUpd) =
     (case getPasswordResetToken (db w) token of
        None \<Rightarrow>
          Json BAD_REQUEST (ErrorBody INVALID_RESET_TOKEN (ERROR_MESSAGES INVALID_RESET_TOKEN))
      | Some td \<Rightarrow>
          if td_expiresAt td < tExp then
            Json BAD_REQUEST (ErrorBody RESET_TOKEN_EXPIRED (ERROR_MESSAGES RESET_TOKEN_EXPIRED))
          else (case updatePassword (db w) (td_userId td) pwHash tUpd of
                  Inl _ \<Rightarrow> internalError
                | Inr _ \<Rightarrow> Json 200 SuccessBody))"
    using r p assms(2,3)
    by (simp add: reset_password_POST_def Let_def split: option.splits sum.splits)
  show "db (snd (reset_password_POST w ipHash ta tb (Some token) (Some pw) tExp pwHash tUpd)) =
     (case getPasswordResetToken (db w) token of
        None \<Rightarrow> db w
      | Some td \<Rightarrow>
          if td_expiresAt td < tExp then db w
          else (case updatePassword (db w) (td_userId td) pwHash tUpd of
                  Inl _ \<Rightarrow> db w
                | Inr st' \<Rightarrow> st'))"
    using r p assms(2,3)
    by (simp add: reset_password_POST_def Let_def split: option.splits sum.splits)
qed

lemma reset_password_POST_short:
  assumes "fst (applyRateLimit (rl w) ipHash ''reset-password'' PASSWORD_RESET ta tb) = None"
    and "length pw < 8"
  shows "errorCode (fst (reset_password_POST w ipHash ta tb (Some token) (Some pw) tExp pwHash tUpd))
           = Some VALIDATION_ERROR"
proof -
  obtain rs' where r: "applyRateLimit (rl w) ipHash ''reset-password'' PASSWORD_RESET ta tb
      = (None, rs')"
    using assms(1) by (rule applyRateLimit_pass)
  show ?thesis using r assms(2)
    by (simp add: reset_password_POST_def Let_def)
qed


lemma verify_email_GET_success:
  assumes "fst (verify_email_GET st (Some token) tExp tVer tUpd) = Redirect ''/verify-email/success''"
  obtains td st' where "truthy token" and "getVerificationToken st token = Some td"
    and "\<not> td_expiresAt td < tExp"
    and "verifyUserEmail st (td_userId td) tVer tUpd = Inr st'"
    and "snd (verify_email_GET st (Some token) tExp tVer tUpd) = st'"
  using assms
  by (auto simp: verify_email_GET_def internalError_def
      split: if_splits option.splits sum.splits)

lemma reset_password_POST_success:
  assumes "fst (reset_password_POST w ipHash ta tb (Some token) passwordField tExp pwHash tUpd)
             = Json 200 SuccessBody"
  obtains td st' where "truthy token" and "getPasswordResetToken (db w) token = Some td"
    and "\<not> td_expiresAt td < tExp"
    and "updatePassword (db w) (td_userId td) pwHash tUpd = Inr st'"
    and "db (snd (reset_password_POST w ipHash ta tb (Some token) passwordField tExp pwHash tUpd))
           = st'"
  using assms
  by (auto simp: reset_password_POST_def internalError_def Let_def BAD_REQUEST_def
      INTERNAL_SERVER_ERROR_def dest: applyRateLimit_limited
      split: if_splits option.splits sum.splits prod.splits)

text \<open>
  C7. Two forgot-password requests that differ only in the supplied email, one
  belonging to a stored user and one to nobody: when the request is not rate-limited,
  the adapter call succeeds and the email is sent, both are answered with the same
  response, status 200 with body \<^verbatim>\<open>{ success: true }\<close>.
\<close>

theorem forgot_password_same_response:
  assumes "fst (applyRateLimit (rl w) ipHash ''forgot-password'' PASSWORD_RESET ta tb) = None"
    and "truthy ea" and "truthy eb"
    and "findUserByEmail (db w) ea = Some u"
    and "findUserByEmail (db w) eb = None"
    and "setPasswordResetToken (db w) (fa_id u) token (tNow + 60 * 60 * 1000) tUpd = Inr st'"
  shows "fst (forgot_password_POST w ipHash ta tb (Some ea) token tNow tUpd True)
           = Json 200 SuccessBody
       \<and> fst (forgot_password_POST w ipHash ta tb (Some eb) token tNow tUpd True)
           = Json 200 SuccessBody"
  using assms by (simp add: forgot_password_after_limit)

theorem forgot_password_same_response_witness:
  "fst (applyRateLimit (rl worldAnn) ''ip'' ''forgot-password'' PASSWORD_RESET 0 0) = None
   \<and> truthy ''a@x.com'' \<and> truthy ''b@x.com''
   \<and> findUserByEmail (db worldAnn) ''a@x.com''
       = Some \<lparr>fa_id = ''u1'', fa_email = ''a@x.com'', fa_name = ''Ann'',
               fa_passwordHash = ''h1'', fa_emailVerified = None\<rparr>
   \<and> findUserByEmail (db worldAnn) ''b@x.com'' = None
   \<and> \<not> isl (setPasswordResetToken (db worldAnn) ''u1'' ''r2'' (500 + 60 * 60 * 1000) 500)
   \<and> fst (forgot_password_POST worldAnn ''ip'' 0 0 (Some ''a@x.com'') ''r2'' 500 500 True)
       = Json 200 SuccessBody
   \<and> fst (forgot_password_POST worldAnn ''ip'' 0 0 (Some ''b@x.com'') ''r2'' 500 500 True)
       = Json 200 SuccessBody"
proof -
  have h1: "fst (applyRateLimit (rl worldAnn) ''ip'' ''forgot-password'' PASSWORD_RESET 0 0) = None"
    by (simp add: worldAnn_def limiter0_pass)
  have h2: "truthy ''a@x.com''" "truthy ''b@x.com''" by (simp_all add: truthy_def)
  have h3: "findUserByEmail (db worldAnn) ''a@x.com''
       = Some \<lparr>fa_id = ''u1'', fa_email = ''a@x.com'', fa_name = ''Ann'',
               fa_passwordHash = ''h1'', fa_emailVerified = None\<rparr>"
    by (simp add: findUserByEmail_def lower_examples worldAnn_def storeAnn_def ann_def truthy_def)
  have h4: "findUserByEmail (db worldAnn) ''b@x.com'' = None"
    by (simp add: findUserByEmail_def lower_examples worldAnn_def storeAnn_def)
  obtain st' where h5: "setPasswordResetToken (db worldAnn)
      (fa_id \<lparr>fa_id = ''u1'', fa_email = ''a@x.com'', fa_name = ''Ann'',
               fa_passwordHash = ''h1'', fa_emailVerified = None\<rparr>) ''r2'' (500 + 60 * 60 * 1000) 500 = Inr st'"
    by (simp add: setPasswordResetToken_def worldAnn_def storeAnn_def)
  then have h6: "\<not> isl (setPasswordResetToken (db worldAnn) ''u1'' ''r2'' (500 + 60 * 60 * 1000) 500)"
    by simp
  note t = forgot_password_same_response [OF h1 h2 h3 h4 h5]
  show ?thesis
    by (intro conjI h1 h2 h3 h4 h6 conjunct1 [OF t] conjunct2 [OF t])
qed

subsection \<open>Token expiry\<close>

lemma storeAnn_tokens:
  "getVerificationToken storeAnn ''v1''
     = Some \<lparr>td_userId = ''u1'', td_token = ''v1'', td_expiresAt = 1000\<rparr>"
  "getPasswordResetToken storeAnn ''r1''
     = Some \<lparr>td_userId = ''u1'', td_token = ''r1'', td_expiresAt = 2000\<rparr>"
  by (simp_all add: getVerificationToken_def getPasswordResetToken_def storeAnn_def ann_def
      truthy_def)

lemma worldAnn_pass:
  "fst (applyRateLimit (rl worldAnn) ipHash endpoint PASSWORD_RESET 0 0) = None"
  by (simp add: worldAnn_def limiter0_pass)

lemma storeAnn_user: "users storeAnn ''u1'' = Some ann"
  by (simp add: storeAnn_def)

text \<open>
  C2, as the code has it. For a stored, non-empty token with expiry \<open>expiresAt\<close>, a
  confirmation that reaches the expiry check at time \<open>t\<close> (for a reset: not
  rate-limited and with a password of at least 8 characters) fails with the
  token-expired error (\<^verbatim>\<open>VERIFICATION_TOKEN_EXPIRED\<close>, \<^verbatim>\<open>RESET_TOKEN_EXPIRED\<close>)
  exactly when \<open>t\<close> is strictly after \<open>expiresAt\<close>. At \<open>t = expiresAt\<close> and at
  every earlier time it does not fail with that error.
\<close>

theorem token_expired_strictly_after_expiry:
  "(truthy token \<and> getVerificationToken st token = Some td
      \<longrightarrow> (errorCode (fst (verify_email_GET st (Some token) t tVer tUpd))
             = Some VERIFICATION_TOKEN_EXPIRED) = (td_expiresAt td < t))
   \<and> (fst (applyRateLimit (rl w) ipHash ''reset-password'' PASSWORD_RESET ta tb) = None
        \<and> truthy rtoken \<and> 8 \<le> length pw \<and> getPasswordResetToken (db w) rtoken = Some rtd
      \<longrightarrow> (errorCode (fst (reset_password_POST w ipHash ta tb (Some rtoken) (Some pw) t
                              pwHash tUpd))
             = Some RESET_TOKEN_EXPIRED) = (td_expiresAt rtd < t))"
proof (intro conjI impI)
  assume a: "truthy token \<and> getVerificationToken st token = Some td"
  then obtain u where u: "users st (td_userId td) = Some u"
    by (blast elim: getVerificationToken_Some)
  show "(errorCode (fst (verify_email_GET st (Some token) t tVer tUpd))
             = Some VERIFICATION_TOKEN_EXPIRED) = (td_expiresAt td < t)"
    using a by (simp add: verify_email_GET_found verifyUserEmail_result [OF u])
next
  assume a: "fst (applyRateLimit (rl w) ipHash ''reset-password'' PASSWORD_RESET ta tb) = None
        \<and> truthy rtoken \<and> 8 \<le> length pw \<and> getPasswordResetToken (db w) rtoken = Some rtd"
  then obtain u where u: "users (db w) (td_userId rtd) = Some u"
    by (blast elim: getPasswordResetToken_Some)
  have "fst (reset_password_POST w ipHash ta tb (Some rtoken) (Some pw) t pwHash tUpd) =
     (if td_expiresAt rtd < t then
        Json BAD_REQUEST (ErrorBody RESET_TOKEN_EXPIRED (ERROR_MESSAGES RESET_TOKEN_EXPIRED))
      else Json 200 SuccessBody)"
    using a by (simp add: reset_password_POST_checked(1) updatePassword_result [OF u])
  then show "(errorCode (fst (reset_password_POST w ipHash ta tb (Some rtoken) (Some pw) t
                              pwHash tUpd))
             = Some RESET_TOKEN_EXPIRED) = (td_expiresAt rtd < t)"
    by simp
qed

text \<open>
  The boundary itself: a verification token expiring at 1000 confirmed at 1000, and a
  reset token expiring at 2000 confirmed at 2000, are not answered with the
  token-expired error.
\<close>

theorem token_expiry_boundary_counterexample:
  "getVerificationToken storeAnn ''v1''
     = Some \<lparr>td_userId = ''u1'', td_token = ''v1'', td_expiresAt = 1000\<rparr>
   \<and> (1000 :: int) \<ge> 1000
   \<and> errorCode (fst (verify_email_GET storeAnn (Some ''v1'') 1000 1000 1000))
       \<noteq> Some VERIFICATION_TOKEN_EXPIRED
   \<and> getPasswordResetToken (db worldAnn) ''r1''
     = Some \<lparr>td_userId = ''u1'', td_token = ''r1'', td_expiresAt = 2000\<rparr>
   \<and> (2000 :: int) \<ge> 2000
   \<and> errorCode (fst (reset_password_POST worldAnn ''ip'' 0 0 (Some ''r1'') (Some ''Newpass12'')
                        2000 ''h2'' 2000))
       \<noteq> Some RESET_TOKEN_EXPIRED"
proof -
  have v: "fst (verify_email_GET storeAnn (Some ''v1'') 1000 1000 1000)
             = Redirect ''/verify-email/success''"
    by (simp add: verify_email_GET_found [OF _ storeAnn_tokens(1)] truthy_def
        verifyUserEmail_result [OF storeAnn_user])
  have d: "db worldAnn = storeAnn" by (simp add: worldAnn_def)
  have r: "fst (reset_password_POST worldAnn ''ip'' 0 0 (Some ''r1'') (Some ''Newpass12'')
                        2000 ''h2'' 2000) = Json 200 SuccessBody"
    by (simp add: reset_password_POST_checked(1) [OF worldAnn_pass] truthy_def d
        storeAnn_tokens updatePassword_result [OF storeAnn_user])
  show ?thesis
    by (simp add: v r d storeAnn_tokens)
qed

theorem token_expired_strictly_after_expiry_witness:
  "truthy ''v1''
   \<and> getVerificationToken storeAnn ''v1''
       = Some \<lparr>td_userId = ''u1'', td_token = ''v1'', td_expiresAt = 1000\<rparr>
   \<and> errorCode (fst (verify_email_GET storeAnn (Some ''v1'') 1001 1001 1001))
       = Some VERIFICATION_TOKEN_EXPIRED
   \<and> errorCode (fst (verify_email_GET storeAnn (Some ''v1'') 1000 1000 1000))
       \<noteq> Some VERIFICATION_TOKEN_EXPIRED
   \<and> fst (applyRateLimit (rl worldAnn) ''ip'' ''reset-password'' PASSWORD_RESET 0 0) = None
   \<and> truthy ''r1'' \<and> 8 \<le> length ''Newpass12''
   \<and> getPasswordResetToken (db worldAnn) ''r1''
       = Some \<lparr>td_userId = ''u1'', td_token = ''r1'', td_expiresAt = 2000\<rparr>
   \<and> errorCode (fst (reset_password_POST worldAnn ''ip'' 0 0 (Some ''r1'') (Some ''Newpass12'')
                        2001 ''h2'' 2001))
       = Some RESET_TOKEN_EXPIRED
   \<and> errorCode (fst (reset_password_POST worldAnn ''ip'' 0 0 (Some ''r1'') (Some ''Newpass12'')
                        2000 ''h2'' 2000))
       \<noteq> Some RESET_TOKEN_EXPIRED"
proof -
  have d: "db worldAnn = storeAnn" by (simp add: worldAnn_def)
  have h1: "truthy ''v1'' \<and> getVerificationToken storeAnn ''v1''
       = Some \<lparr>td_userId = ''u1'', td_token = ''v1'', td_expiresAt = 1000\<rparr>"
    by (simp add: truthy_def storeAnn_tokens)
  have h2: "fst (applyRateLimit (rl worldAnn) ''ip'' ''reset-password'' PASSWORD_RESET 0 0) = None
   \<and> truthy ''r1'' \<and> 8 \<le> length ''Newpass12''
   \<and> getPasswordResetToken (db worldAnn) ''r1''
       = Some \<lparr>td_userId = ''u1'', td_token = ''r1'', td_expiresAt = 2000\<rparr>"
    by (simp add: truthy_def storeAnn_tokens d worldAnn_pass)
  note ta = token_expired_strictly_after_expiry [where st = storeAnn and token = "''v1''"
      and td = "\<lparr>td_userId = ''u1'', td_token = ''v1'', td_expiresAt = 1000\<rparr>"
      and w = worldAnn and ipHash = "''ip''" and ta = 0 and tb = 0 and rtoken = "''r1''"
      and pw = "''Newpass12''"
      and rtd = "\<lparr>td_userId = ''u1'', td_token = ''r1'', td_expiresAt = 2000\<rparr>"]
  have c1: "errorCode (fst (verify_email_GET storeAnn (Some ''v1'') 1001 1001 1001))
       = Some VERIFICATION_TOKEN_EXPIRED"
    using ta [where t = 1001 and tVer = 1001 and tUpd = 1001] h1 by simp
  have c2: "errorCode (fst (verify_email_GET storeAnn (Some ''v1'') 1000 1000 1000))
       \<noteq> Some VERIFICATION_TOKEN_EXPIRED"
    using ta [where t = 1000 and tVer = 1000 and tUpd = 1000] h1 by simp
  have c3: "errorCode (fst (reset_password_POST worldAnn ''ip'' 0 0 (Some ''r1'') (Some ''Newpass12'')
                        2001 ''h2'' 2001)) = Some RESET_TOKEN_EXPIRED"
    using ta [where t = 2001 and tUpd = 2001 and pwHash = "''h2''"] h2 by simp
  have c4: "errorCode (fst (reset_password_POST worldAnn ''ip'' 0 0 (Some ''r1'') (Some ''Newpass12'')
                        2000 ''h2'' 2000)) \<noteq> Some RESET_TOKEN_EXPIRED"
    using ta [where t = 2000 and tUpd = 2000 and pwHash = "''h2''"] h2 by simp
  show ?thesis
    using h1 h2 c1 c2 c3 c4 by (intro conjI) simp_all
qed

subsection \<open>Password validation of the reset handler\<close>

lemma Newpass12_ok: "passwordSchema ''Newpass12''"
  by (simp add: passwordSchema_def isUpper_def isLower_def isDigit_def)

text \<open>
  C3, as the code has it. For a reset-password request that is not rate-limited and
  carries a valid, unexpired token, the new password is rejected with
  \<^verbatim>\<open>VALIDATION_ERROR\<close> exactly when it has fewer than 8 characters (the empty
  password included). Every password of at least 8 characters is accepted, so every
  password the registration policy \<^verbatim>\<open>passwordSchema\<close> accepts is accepted.
\<close>

theorem reset_password_checks_length_only:
  assumes "fst (applyRateLimit (rl w) ipHash ''reset-password'' PASSWORD_RESET ta tb) = None"
    and "truthy token"
    and "getPasswordResetToken (db w) token = Some td"
    and "\<not> td_expiresAt td < tExp"
  shows "((errorCode (fst (reset_password_POST w ipHash ta tb (Some token) (Some pw) tExp
                             pwHash tUpd)) = Some VALIDATION_ERROR) = (length pw < 8))
       \<and> (8 \<le> length pw \<longrightarrow>
             fst (reset_password_POST w ipHash ta tb (Some token) (Some pw) tExp pwHash tUpd)
               = Json 200 SuccessBody)
       \<and> (passwordSchema pw \<longrightarrow>
             fst (reset_password_POST w ipHash ta tb (Some token) (Some pw) tExp pwHash tUpd)
               = Json 200 SuccessBody)"
proof -
  obtain u where u: "users (db w) (td_userId td) = Some u"
    using assms(3) by (rule getPasswordResetToken_Some)
  have ok: "fst (reset_password_POST w ipHash ta tb (Some token) (Some pw) tExp pwHash tUpd)
               = Json 200 SuccessBody" if "8 \<le> length pw"
    using assms that
    by (simp add: reset_password_POST_checked(1) updatePassword_result [OF u])
  have short: "errorCode (fst (reset_password_POST w ipHash ta tb (Some token) (Some pw) tExp
                             pwHash tUpd)) = Some VALIDATION_ERROR" if "length pw < 8"
    using assms(1) that by (rule reset_password_POST_short)
  have "(errorCode (fst (reset_password_POST w ipHash ta tb (Some token) (Some pw) tExp
                             pwHash tUpd)) = Some VALIDATION_ERROR) = (length pw < 8)"
  proof (cases "length pw < 8")
    case True
    then show ?thesis using short by simp
  next
    case False
    then have "8 \<le> length pw" by simp
    from ok [OF this] False show ?thesis by simp
  qed
  moreover have "8 \<le> length pw" if "passwordSchema pw"
    using that by (simp add: passwordSchema_def)
  ultimately show ?thesis using ok by blast
qed

theorem reset_password_checks_length_only_witness:
  "fst (applyRateLimit (rl worldAnn) ''ip'' ''reset-password'' PASSWORD_RESET 0 0) = None
   \<and> truthy ''r1''
   \<and> getPasswordResetToken (db worldAnn) ''r1''
       = Some \<lparr>td_userId = ''u1'', td_token = ''r1'', td_expiresAt = 2000\<rparr>
   \<and> \<not> td_expiresAt \<lparr>td_userId = ''u1'', td_token = ''r1'', td_expiresAt = 2000\<rparr> < 1500
   \<and> errorCode (fst (reset_password_POST worldAnn ''ip'' 0 0 (Some ''r1'') (Some ''Abc12'')
                        1500 ''h2'' 1500)) = Some VALIDATION_ERROR
   \<and> passwordSchema ''Newpass12''
   \<and> fst (reset_password_POST worldAnn ''ip'' 0 0 (Some ''r1'') (Some ''Newpass12'')
             1500 ''h2'' 1500) = Json 200 SuccessBody"
proof -
  have d: "db worldAnn = storeAnn" by (simp add: worldAnn_def)
  have h1: "fst (applyRateLimit (rl worldAnn) ''ip'' ''reset-password'' PASSWORD_RESET 0 0) = None"
    by (rule worldAnn_pass)
  have h2: "truthy ''r1''" by (simp add: truthy_def)
  have h3: "getPasswordResetToken (db worldAnn) ''r1''
       = Some \<lparr>td_userId = ''u1'', td_token = ''r1'', td_expiresAt = 2000\<rparr>"
    by (simp add: d storeAnn_tokens)
  have h4: "\<not> td_expiresAt \<lparr>td_userId = ''u1'', td_token = ''r1'', td_expiresAt = 2000\<rparr> < 1500"
    by simp
  note t = reset_password_checks_length_only [OF h1 h2 h3 h4]
  have c1: "errorCode (fst (reset_password_POST worldAnn ''ip'' 0 0 (Some ''r1'') (Some ''Abc12'')
                        1500 ''h2'' 1500)) = Some VALIDATION_ERROR"
    using t [of "''Abc12''" "''h2''" 1500] by simp
  have c2: "fst (reset_password_POST worldAnn ''ip'' 0 0 (Some ''r1'') (Some ''Newpass12'')
             1500 ''h2'' 1500) = Json 200 SuccessBody"
    using t [of "''Newpass12''" "''h2''" 1500] Newpass12_ok by blast
  show ?thesis
    by (intro conjI h1 h2 h3 h4 c1 c2 Newpass12_ok)
qed

text \<open>
  The registration policy rejects \<^verbatim>\<open>abcdefgh\<close> (no uppercase letter, no digit); the
  reset handler accepts it with a valid, unexpired token.
\<close>

theorem reset_password_policy_counterexample:
  "fst (applyRateLimit (rl worldAnn) ''ip'' ''reset-password'' PASSWORD_RESET 0 0) = None
   \<and> getPasswordResetToken (db worldAnn) ''r1''
       = Some \<lparr>td_userId = ''u1'', td_token = ''r1'', td_expiresAt = 2000\<rparr>
   \<and> (1500 :: int) < 2000
   \<and> \<not> passwordSchema ''abcdefgh''
   \<and> fst (reset_password_POST worldAnn ''ip'' 0 0 (Some ''r1'') (Some ''abcdefgh'')
             1500 ''h2'' 1500) = Json 200 SuccessBody"
proof -
  have d: "db worldAnn = storeAnn" by (simp add: worldAnn_def)
  have p: "\<not> passwordSchema ''abcdefgh''"
    by (simp add: passwordSchema_def isUpper_def)
  have r: "fst (reset_password_POST worldAnn ''ip'' 0 0 (Some ''r1'') (Some ''abcdefgh'')
             1500 ''h2'' 1500) = Json 200 SuccessBody"
    by (simp add: reset_password_POST_checked(1) [OF worldAnn_pass] truthy_def d
        storeAnn_tokens updatePassword_result [OF storeAnn_user])
  show ?thesis
    by (simp add: p r d storeAnn_tokens worldAnn_pass)
qed

subsection \<open>Single use of tokens\<close>

lemma reset_password_POST_rl:
  "rl (snd (reset_password_POST w ipHash ta tb tokenField passwordField tExp pwHash tUpd))
     = snd (applyRateLimit (rl w) ipHash ''reset-password'' PASSWORD_RESET ta tb)"
  by (simp add: reset_password_POST_def Let_def split: prod.splits option.splits sum.splits)

lemma storeAnn_consistent: "index_consistent storeAnn"
  by (simp add: index_consistent_def storeAnn_def ann_def)

text \<open>
  C4. After a confirmation that succeeds for token \<open>t\<close> (the verification redirect,
  or the reset's 200 response), \<open>t\<close> is unreachable: the adapter's
  \<^verbatim>\<open>getVerificationToken\<close> / \<^verbatim>\<open>getPasswordResetToken\<close> returns none for \<open>t\<close>; the
  owner's token field and expiry are cleared by the same \<^verbatim>\<open>updateUser\<close> call that
  writes the record, which also removes the index entry of \<open>t\<close> (in a store whose
  indexes are consistent with its records); and a second confirmation with \<open>t\<close> fails
  with the invalid-token error (for a reset: when that second request is not
  rate-limited and carries a password of at least 8 characters, the checks that precede
  the lookup).
\<close>

theorem consumed_token_unreachable:
  "(fst (verify_email_GET st (Some token) tExp tVer tUpd) = Redirect ''/verify-email/success''
      \<longrightarrow> getVerificationToken (snd (verify_email_GET st (Some token) tExp tVer tUpd)) token
            = None
        \<and> (\<exists>td u'. getVerificationToken st token = Some td
              \<and> users (snd (verify_email_GET st (Some token) tExp tVer tUpd)) (td_userId td)
                  = Some u'
              \<and> emailVerificationToken u' = None
              \<and> emailVerificationTokenExpiresAt u' = None)
        \<and> (index_consistent st \<longrightarrow>
              verificationTokenIndex (snd (verify_email_GET st (Some token) tExp tVer tUpd))
                token = None)
        \<and> errorCode (fst (verify_email_GET
                             (snd (verify_email_GET st (Some token) tExp tVer tUpd))
                             (Some token) tExpB tVerB tUpdB))
            = Some INVALID_VERIFICATION_TOKEN)
   \<and> (fst (reset_password_POST w ipHash ta tb (Some rtoken) passwordField tExp pwHash tUpd)
          = Json 200 SuccessBody
      \<longrightarrow> getPasswordResetToken
            (db (snd (reset_password_POST w ipHash ta tb (Some rtoken) passwordField tExp
                        pwHash tUpd))) rtoken = None
        \<and> (\<exists>td u'. getPasswordResetToken (db w) rtoken = Some td
              \<and> users (db (snd (reset_password_POST w ipHash ta tb (Some rtoken) passwordField
                                    tExp pwHash tUpd))) (td_userId td) = Some u'
              \<and> passwordResetToken u' = None
              \<and> passwordResetTokenExpiresAt u' = None)
        \<and> (index_consistent (db w) \<longrightarrow>
              passwordResetTokenIndex
                (db (snd (reset_password_POST w ipHash ta tb (Some rtoken) passwordField tExp
                            pwHash tUpd))) rtoken = None)
        \<and> (fst (applyRateLimit
                   (rl (snd (reset_password_POST w ipHash ta tb (Some rtoken) passwordField tExp
                               pwHash tUpd)))
                   ipHashB ''reset-password'' PASSWORD_RESET tc td) = None
             \<and> 8 \<le> length pw
            \<longrightarrow> errorCode (fst (reset_password_POST
                   (snd (reset_password_POST w ipHash ta tb (Some rtoken) passwordField tExp
                           pwHash tUpd))
                   ipHashB tc td (Some rtoken) (Some pw) tExpB pwHashB tUpdB))
                = Some INVALID_RESET_TOKEN))"
proof (intro conjI impI)
  let ?st' = "snd (verify_email_GET st (Some token) tExp tVer tUpd)"
  assume a: "fst (verify_email_GET st (Some token) tExp tVer tUpd)
               = Redirect ''/verify-email/success''"
  then obtain td st' where tr: "truthy token"
    and g: "getVerificationToken st token = Some td"
    and v: "verifyUserEmail st (td_userId td) tVer tUpd = Inr st'"
    and s: "?st' = st'"
    by (rule verify_email_GET_success)
  note c = consumed_verification_token [OF g v]
  show n: "getVerificationToken ?st' token = None" using c(1) s by simp
  show "\<exists>td u'. getVerificationToken st token = Some td
              \<and> users ?st' (td_userId td) = Some u'
              \<and> emailVerificationToken u' = None
              \<and> emailVerificationTokenExpiresAt u' = None"
    using c(2) g s by auto
  show "verificationTokenIndex ?st' token = None" if "index_consistent st"
    using c(3) [OF that] s by simp
  show "errorCode (fst (verify_email_GET ?st' (Some token) tExpB tVerB tUpdB))
            = Some INVALID_VERIFICATION_TOKEN"
    by (simp add: verify_email_GET_not_found [OF tr n])
next
  let ?w' = "snd (reset_password_POST w ipHash ta tb (Some rtoken) passwordField tExp pwHash tUpd)"
  assume a: "fst (reset_password_POST w ipHash ta tb (Some rtoken) passwordField tExp pwHash tUpd)
          = Json 200 SuccessBody"
  then obtain td' st' where tr: "truthy rtoken"
    and g: "getPasswordResetToken (db w) rtoken = Some td'"
    and v: "updatePassword (db w) (td_userId td') pwHash tUpd = Inr st'"
    and s: "db ?w' = st'"
    by (rule reset_password_POST_success)
  note c = consumed_reset_token [OF g v]
  show n: "getPasswordResetToken (db ?w') rtoken = None" using c(1) s by simp
  show "\<exists>td u'. getPasswordResetToken (db w) rtoken = Some td
              \<and> users (db ?w') (td_userId td) = Some u'
              \<and> passwordResetToken u' = None
              \<and> passwordResetTokenExpiresAt u' = None"
    using c(2) g s by auto
  show "passwordResetTokenIndex (db ?w') rtoken = None" if "index_consistent (db w)"
    using c(3) [OF that] s by simp
  show "errorCode (fst (reset_password_POST ?w' ipHashB tc td (Some rtoken) (Some pw) tExpB
                          pwHashB tUpdB)) = Some INVALID_RESET_TOKEN"
    if "fst (applyRateLimit (rl ?w') ipHashB ''reset-password'' PASSWORD_RESET tc td) = None
        \<and> 8 \<le> length pw"
    using that tr n by (simp add: reset_password_POST_checked(1))
qed


theorem consumed_token_unreachable_witness:
  "fst (verify_email_GET storeAnn (Some ''v1'') 500 500 500) = Redirect ''/verify-email/success''
   \<and> index_consistent storeAnn
   \<and> getVerificationToken (snd (verify_email_GET storeAnn (Some ''v1'') 500 500 500)) ''v1''
       = None
   \<and> verificationTokenIndex (snd (verify_email_GET storeAnn (Some ''v1'') 500 500 500)) ''v1''
       = None
   \<and> errorCode (fst (verify_email_GET
                        (snd (verify_email_GET storeAnn (Some ''v1'') 500 500 500))
                        (Some ''v1'') 600 600 600))
       = Some INVALID_VERIFICATION_TOKEN
   \<and> fst (reset_password_POST worldAnn ''ip'' 0 0 (Some ''r1'') (Some ''Newpass12'') 500
             ''h2'' 500) = Json 200 SuccessBody
   \<and> index_consistent (db worldAnn)
   \<and> getPasswordResetToken
        (db (snd (reset_password_POST worldAnn ''ip'' 0 0 (Some ''r1'') (Some ''Newpass12'') 500
                    ''h2'' 500))) ''r1'' = None
   \<and> passwordResetTokenIndex
        (db (snd (reset_password_POST worldAnn ''ip'' 0 0 (Some ''r1'') (Some ''Newpass12'') 500
                    ''h2'' 500))) ''r1'' = None
   \<and> fst (applyRateLimit
             (rl (snd (reset_password_POST worldAnn ''ip'' 0 0 (Some ''r1'') (Some ''Newpass12'')
                         500 ''h2'' 500)))
             ''ip'' ''reset-password'' PASSWORD_RESET 0 0) = None
   \<and> 8 \<le> length ''Newpass12''
   \<and> errorCode (fst (reset_password_POST
          (snd (reset_password_POST worldAnn ''ip'' 0 0 (Some ''r1'') (Some ''Newpass12'') 500
                  ''h2'' 500))
          ''ip'' 0 0 (Some ''r1'') (Some ''Newpass12'') 600 ''h3'' 600))
       = Some INVALID_RESET_TOKEN"
proof -
  let ?w' = "snd (reset_password_POST worldAnn ''ip'' 0 0 (Some ''r1'') (Some ''Newpass12'') 500
                    ''h2'' 500)"
  have d: "db worldAnn = storeAnn" by (simp add: worldAnn_def)
  have h1: "fst (verify_email_GET storeAnn (Some ''v1'') 500 500 500)
              = Redirect ''/verify-email/success''"
    by (simp add: verify_email_GET_found [OF _ storeAnn_tokens(1)] truthy_def
        verifyUserEmail_result [OF storeAnn_user])
  have h2: "fst (reset_password_POST worldAnn ''ip'' 0 0 (Some ''r1'') (Some ''Newpass12'') 500
             ''h2'' 500) = Json 200 SuccessBody"
    by (simp add: reset_password_POST_checked(1) [OF worldAnn_pass] truthy_def d
        storeAnn_tokens updatePassword_result [OF storeAnn_user])
  have h3: "index_consistent storeAnn" "index_consistent (db worldAnn)"
    by (simp_all add: d storeAnn_consistent)
  have h4: "fst (applyRateLimit (rl ?w') ''ip'' ''reset-password'' PASSWORD_RESET 0 0) = None"
    by (simp add: reset_password_POST_rl worldAnn_def limiter0_def applyRateLimit_def
        checkRateLimit_def cleanupExpiredEntries_def CLEANUP_INTERVAL_MS_def Let_def
        PASSWORD_RESET_def)
  have h5: "8 \<le> length ''Newpass12''" by simp
  note t = consumed_token_unreachable [where st = storeAnn and token = "''v1''" and tExp = 500
      and tVer = 500 and tUpd = 500 and tExpB = 600 and tVerB = 600 and tUpdB = 600
      and w = worldAnn and ipHash = "''ip''" and ta = 0 and tb = 0 and rtoken = "''r1''"
      and passwordField = "Some ''Newpass12''" and pwHash = "''h2''"
      and ipHashB = "''ip''" and tc = 0 and td = 0 and pw = "''Newpass12''"
      and pwHashB = "''h3''"]
  show ?thesis
    using t h1 h2 h3 h4 h5 by blast
qed

subsection \<open>Supersession of tokens\<close>

text \<open>
  C5. Supersession. Tokens are the non-empty strings of the token generator. In a store
  whose token indexes are consistent with its records, after \<^verbatim>\<open>setVerificationToken\<close>
  (or \<^verbatim>\<open>setPasswordResetToken\<close>) stores a new token \<open>tb\<close> for user \<open>i\<close>: every other
  token \<open>t\<close> of that purpose that was \<open>i\<close>'s live token, or was no longer live, is
  looked up with result none and has no index entry; the only index entry that leads to
  \<open>i\<close> is the one of \<open>tb\<close>, so \<open>i\<close> has at most one live token of the purpose; the new
  token is found with its expiry; and the indexes stay consistent.
\<close>

theorem new_token_supersedes_old:
  assumes "index_consistent st" and "tb \<noteq> []"
  shows "(setVerificationToken st i tb expiresAt now = Inr st'
          \<longrightarrow> (\<forall>t. t \<noteq> tb
                    \<and> (verificationTokenIndex st t = Some i \<or> verificationTokenIndex st t = None)
                  \<longrightarrow> getVerificationToken st' t = None \<and> verificationTokenIndex st' t = None)
            \<and> (\<forall>t. verificationTokenIndex st' t = Some i \<longrightarrow> t = tb)
            \<and> (i \<noteq> [] \<longrightarrow> getVerificationToken st' tb
                  = Some \<lparr>td_userId = i, td_token = tb, td_expiresAt = expiresAt\<rparr>)
            \<and> index_consistent st')
       \<and> (setPasswordResetToken st i tb expiresAt now = Inr st'
          \<longrightarrow> (\<forall>t. t \<noteq> tb
                    \<and> (passwordResetTokenIndex st t = Some i \<or> passwordResetTokenIndex st t = None)
                  \<longrightarrow> getPasswordResetToken st' t = None \<and> passwordResetTokenIndex st' t = None)
            \<and> (\<forall>t. passwordResetTokenIndex st' t = Some i \<longrightarrow> t = tb)
            \<and> (i \<noteq> [] \<longrightarrow> getPasswordResetToken st' tb
                  = Some \<lparr>td_userId = i, td_token = tb, td_expiresAt = expiresAt\<rparr>)
            \<and> index_consistent st')"
proof (rule conjI; intro impI)
  assume s: "setVerificationToken st i tb expiresAt now = Inr st'"
  note sup = setVerificationToken_supersedes [OF assms s]
  obtain u where u: "users st i = Some u" using s by (rule setVerificationToken_Inr)
  have st': "st' = st\<lparr>verificationTokenIndex :=
                (dropOld (verificationTokenIndex st) (emailVerificationToken u))(tb \<mapsto> i),
              users := (users st)(i \<mapsto> u\<lparr>emailVerificationToken := Some tb,
                                          emailVerificationTokenExpiresAt := Some expiresAt,
                                          updatedAt := now\<rparr>)\<rparr>"
    using s setVerificationToken_result [OF u, of tb expiresAt now] by simp
  have old: "getVerificationToken st' t = None \<and> verificationTokenIndex st' t = None"
    if a: "t \<noteq> tb
        \<and> (verificationTokenIndex st t = Some i \<or> verificationTokenIndex st t = None)" for t
  proof -
    have "verificationTokenIndex st' t = None \<or> verificationTokenIndex st' t = Some i"
      using a dropOld_cases [of "verificationTokenIndex st" "emailVerificationToken u" t]
      by (auto simp: st')
    with sup(1) a have n: "verificationTokenIndex st' t = None" by blast
    then show ?thesis by (simp add: getVerificationToken_def)
  qed
  have new: "getVerificationToken st' tb
          = Some \<lparr>td_userId = i, td_token = tb, td_expiresAt = expiresAt\<rparr>" if "i \<noteq> []"
    using that by (simp add: getVerificationToken_def st' truthy_def)
  show "(\<forall>t. t \<noteq> tb
            \<and> (verificationTokenIndex st t = Some i \<or> verificationTokenIndex st t = None)
          \<longrightarrow> getVerificationToken st' t = None \<and> verificationTokenIndex st' t = None)
        \<and> (\<forall>t. verificationTokenIndex st' t = Some i \<longrightarrow> t = tb)
        \<and> (i \<noteq> [] \<longrightarrow> getVerificationToken st' tb
              = Some \<lparr>td_userId = i, td_token = tb, td_expiresAt = expiresAt\<rparr>)
        \<and> index_consistent st'"
    using old new sup by blast
next
  assume s: "setPasswordResetToken st i tb expiresAt now = Inr st'"
  note sup = setPasswordResetToken_supersedes [OF assms s]
  obtain u where u: "users st i = Some u" using s by (rule setPasswordResetToken_Inr)
  have st': "st' = st\<lparr>passwordResetTokenIndex :=
                (dropOld (passwordResetTokenIndex st) (passwordResetToken u))(tb \<mapsto> i),
              users := (users st)(i \<mapsto> u\<lparr>passwordResetToken := Some tb,
                                          passwordResetTokenExpiresAt := Some expiresAt,
                                          updatedAt := now\<rparr>)\<rparr>"
    using s setPasswordResetToken_result [OF u, of tb expiresAt now] by simp
  have old: "getPasswordResetToken st' t = None \<and> passwordResetTokenIndex st' t = None"
    if a: "t \<noteq> tb
        \<and> (passwordResetTokenIndex st t = Some i \<or> passwordResetTokenIndex st t = None)" for t
  proof -
    have "passwordResetTokenIndex st' t = None \<or> passwordResetTokenIndex st' t = Some i"
      using a dropOld_cases [of "passwordResetTokenIndex st" "passwordResetToken u" t]
      by (auto simp: st')
    with sup(1) a have n: "passwordResetTokenIndex st' t = None" by blast
    then show ?thesis by (simp add: getPasswordResetToken_def)
  qed
  have new: "getPasswordResetToken st' tb
          = Some \<lparr>td_userId = i, td_token = tb, td_expiresAt = expiresAt\<rparr>" if "i \<noteq> []"
    using that by (simp add: getPasswordResetToken_def st' truthy_def)
  show "(\<forall>t. t \<noteq> tb
            \<and> (passwordResetTokenIndex st t = Some i \<or> passwordResetTokenIndex st t = None)
          \<longrightarrow> getPasswordResetToken st' t = None \<and> passwordResetTokenIndex st' t = None)
        \<and> (\<forall>t. passwordResetTokenIndex st' t = Some i \<longrightarrow> t = tb)
        \<and> (i \<noteq> [] \<longrightarrow> getPasswordResetToken st' tb
              = Some \<lparr>td_userId = i, td_token = tb, td_expiresAt = expiresAt\<rparr>)
        \<and> index_consistent st'"
    using old new sup by blast
qed

theorem new_token_supersedes_old_witness:
  "index_consistent storeAnn \<and> ''v2'' \<noteq> []
   \<and> \<not> isl (setVerificationToken storeAnn ''u1'' ''v2'' 5000 10)
   \<and> verificationTokenIndex storeAnn ''v1'' = Some ''u1''
   \<and> getVerificationToken (projr (setVerificationToken storeAnn ''u1'' ''v2'' 5000 10)) ''v1''
       = None
   \<and> getVerificationToken (projr (setVerificationToken storeAnn ''u1'' ''v2'' 5000 10)) ''v2''
       = Some \<lparr>td_userId = ''u1'', td_token = ''v2'', td_expiresAt = 5000\<rparr>
   \<and> \<not> isl (setPasswordResetToken storeAnn ''u1'' ''v2'' 5000 10)
   \<and> passwordResetTokenIndex storeAnn ''r1'' = Some ''u1''
   \<and> getPasswordResetToken (projr (setPasswordResetToken storeAnn ''u1'' ''v2'' 5000 10)) ''r1''
       = None
   \<and> getPasswordResetToken (projr (setPasswordResetToken storeAnn ''u1'' ''v2'' 5000 10)) ''v2''
       = Some \<lparr>td_userId = ''u1'', td_token = ''v2'', td_expiresAt = 5000\<rparr>"
proof -
  let ?sv = "projr (setVerificationToken storeAnn ''u1'' ''v2'' 5000 10)"
  let ?sr = "projr (setPasswordResetToken storeAnn ''u1'' ''v2'' 5000 10)"
  have h1: "index_consistent storeAnn" by (rule storeAnn_consistent)
  have h2: "''v2'' \<noteq> []" by simp
  have e1: "setVerificationToken storeAnn ''u1'' ''v2'' 5000 10 = Inr ?sv"
    by (simp add: setVerificationToken_result [OF storeAnn_user])
  have e2: "setPasswordResetToken storeAnn ''u1'' ''v2'' 5000 10 = Inr ?sr"
    by (simp add: setPasswordResetToken_result [OF storeAnn_user])
  have i1: "\<not> isl (setVerificationToken storeAnn ''u1'' ''v2'' 5000 10)"
    by (simp add: setVerificationToken_result [OF storeAnn_user])
  have i2: "\<not> isl (setPasswordResetToken storeAnn ''u1'' ''v2'' 5000 10)"
    by (simp add: setPasswordResetToken_result [OF storeAnn_user])
  have p: "verificationTokenIndex storeAnn ''v1'' = Some ''u1''"
      "passwordResetTokenIndex storeAnn ''r1'' = Some ''u1''"
      "''v1'' \<noteq> ''v2''" "''r1'' \<noteq> ''v2''" "''u1'' \<noteq> []"
    by (simp_all add: storeAnn_def)
  note t1 = new_token_supersedes_old [OF h1 h2, where i = "''u1''" and expiresAt = 5000
      and now = 10 and st' = ?sv, THEN conjunct1, THEN mp, OF e1]
  note t2 = new_token_supersedes_old [OF h1 h2, where i = "''u1''" and expiresAt = 5000
      and now = 10 and st' = ?sr, THEN conjunct2, THEN mp, OF e2]
  have c1: "getVerificationToken ?sv ''v1'' = None"
    using t1 [THEN conjunct1, THEN spec, of "''v1''"] p by blast
  have c2: "getVerificationToken ?sv ''v2''
       = Some \<lparr>td_userId = ''u1'', td_token = ''v2'', td_expiresAt = 5000\<rparr>"
    using t1 [THEN conjunct2, THEN conjunct2, THEN conjunct1] p by blast
  have c3: "getPasswordResetToken ?sr ''r1'' = None"
    using t2 [THEN conjunct1, THEN spec, of "''r1''"] p by blast
  have c4: "getPasswordResetToken ?sr ''v2''
       = Some \<lparr>td_userId = ''u1'', td_token = ''v2'', td_expiresAt = 5000\<rparr>"
    using t2 [THEN conjunct2, THEN conjunct2, THEN conjunct1] p by blast
  show ?thesis
    by (intro conjI h1 h2 i1 i2 p c1 c2 c3 c4)
qed

subsection \<open>Uniqueness of emails\<close>

lemma lower_char_idem: "lower_char (lower_char c) = lower_char c"
  by (auto simp: lower_char_def Let_def)

lemma toLowerCase_idem: "toLowerCase (toLowerCase s) = toLowerCase s"
  by (simp add: toLowerCase_def lower_char_idem)

lemma registerSchema_email:
  assumes "registerSchema emailSyntax body = Some parsed"
  shows "rb_email parsed = toLowerCase (rb_email body)"
  using assms by (auto simp: registerSchema_def split: if_splits)

lemma createUser_result:
  "\<exists>u st'. createUser st newId now d = Inr (u, st') \<and> users st' newId = Some u
      \<and> email u = toLowerCase (c_email d)
      \<and> emailIndex st' (toLowerCase (c_email d)) = Some newId"
  by (simp add: createUser_def Let_def split: option.splits)

lemma limiter0_pass_registration:
  "fst (applyRateLimit limiter0 ipHash endpoint REGISTRATION 0 0) = None"
  by (simp add: applyRateLimit_def checkRateLimit_def cleanupExpiredEntries_def limiter0_def
      CLEANUP_INTERVAL_MS_def Let_def REGISTRATION_def)

text \<open>
  C1, as the code has it. The in-memory adapter's \<^verbatim>\<open>createUser\<close> has no uniqueness
  check: it never fails, stores the new record under the fresh id and points the email
  index entry of the normalized email at it, whatever the index held before. A second
  registration of an email is rejected by the register handler's \<^verbatim>\<open>emailExists\<close>
  pre-check: for every state whose email index holds the normalized email, a register
  request that passes rate limiting and validation is answered 409
  \<^verbatim>\<open>EMAIL_EXISTS\<close> and leaves the adapter's store (user table and email index
  included) unchanged.
\<close>

theorem duplicate_email_rejected_by_register:
  "(\<exists>u st'. createUser st newId now d = Inr (u, st') \<and> users st' newId = Some u
        \<and> email u = toLowerCase (c_email d)
        \<and> emailIndex st' (toLowerCase (c_email d)) = Some newId)
   \<and> (fst (applyRateLimit (rl w) ipHash ''register'' REGISTRATION ta tb) = None
        \<and> registerSchema emailSyntax body \<noteq> None
        \<and> emailIndex (db w) (toLowerCase (rb_email body)) \<noteq> None
      \<longrightarrow> fst (register_POST emailSyntax w ipHash ta tb body pwHash verificationToken tNow
                 newId tCreate)
            = Json CONFLICT (ErrorBody EMAIL_EXISTS ''Email already in use'')
        \<and> db (snd (register_POST emailSyntax w ipHash ta tb body pwHash verificationToken tNow
                      newId tCreate)) = db w)"
proof (rule conjI)
  show "\<exists>u st'. createUser st newId now d = Inr (u, st') \<and> users st' newId = Some u
        \<and> email u = toLowerCase (c_email d)
        \<and> emailIndex st' (toLowerCase (c_email d)) = Some newId"
    by (rule createUser_result)
next
  show "fst (applyRateLimit (rl w) ipHash ''register'' REGISTRATION ta tb) = None
        \<and> registerSchema emailSyntax body \<noteq> None
        \<and> emailIndex (db w) (toLowerCase (rb_email body)) \<noteq> None
      \<longrightarrow> fst (register_POST emailSyntax w ipHash ta tb body pwHash verificationToken tNow
                 newId tCreate)
            = Json CONFLICT (ErrorBody EMAIL_EXISTS ''Email already in use'')
        \<and> db (snd (register_POST emailSyntax w ipHash ta tb body pwHash verificationToken tNow
                      newId tCreate)) = db w"
  proof
    assume a: "fst (applyRateLimit (rl w) ipHash ''register'' REGISTRATION ta tb) = None
        \<and> registerSchema emailSyntax body \<noteq> None
        \<and> emailIndex (db w) (toLowerCase (rb_email body)) \<noteq> None"
    then obtain rs' where r: "applyRateLimit (rl w) ipHash ''register'' REGISTRATION ta tb
        = (None, rs')"
      by (blast elim: applyRateLimit_pass)
    from a obtain parsed where p: "registerSchema emailSyntax body = Some parsed" by auto
    have e: "emailExists (db w) (rb_email parsed)"
      using a registerSchema_email [OF p] by (simp add: emailExists_def toLowerCase_idem)
    show "fst (register_POST emailSyntax w ipHash ta tb body pwHash verificationToken tNow
                 newId tCreate)
            = Json CONFLICT (ErrorBody EMAIL_EXISTS ''Email already in use'')
        \<and> db (snd (register_POST emailSyntax w ipHash ta tb body pwHash verificationToken tNow
                      newId tCreate)) = db w"
      using r p e by (simp add: register_POST_def Let_def)
  qed
qed

theorem duplicate_email_rejected_by_register_witness:
  "fst (applyRateLimit (rl worldAnn) ''ip'' ''register'' REGISTRATION 0 0) = None
   \<and> registerSchema anySyntax bodyDup \<noteq> None
   \<and> emailIndex (db worldAnn) (toLowerCase (rb_email bodyDup)) \<noteq> None
   \<and> fst (register_POST anySyntax worldAnn ''ip'' 0 0 bodyDup ''h9'' ''v9'' 5 ''u2'' 5)
       = Json CONFLICT (ErrorBody EMAIL_EXISTS ''Email already in use'')
   \<and> db (snd (register_POST anySyntax worldAnn ''ip'' 0 0 bodyDup ''h9'' ''v9'' 5 ''u2'' 5))
       = db worldAnn"
proof -
  have h1: "fst (applyRateLimit (rl worldAnn) ''ip'' ''register'' REGISTRATION 0 0) = None"
    by (simp add: worldAnn_def limiter0_pass_registration)
  have h2: "registerSchema anySyntax bodyDup \<noteq> None"
    by (simp add: registerSchema_def anySyntax_def bodyDup_def Newpass12_ok)
  have h3: "emailIndex (db worldAnn) (toLowerCase (rb_email bodyDup)) \<noteq> None"
    by (simp add: worldAnn_def storeAnn_def bodyDup_def lower_examples)
  note t = duplicate_email_rejected_by_register [where w = worldAnn and ipHash = "''ip''"
      and ta = 0 and tb = 0 and emailSyntax = anySyntax and body = bodyDup
      and pwHash = "''h9''" and verificationToken = "''v9''" and tNow = 5
      and newId = "''u2''" and tCreate = 5, THEN conjunct2, THEN mp]
  have c: "fst (register_POST anySyntax worldAnn ''ip'' 0 0 bodyDup ''h9'' ''v9'' 5 ''u2'' 5)
       = Json CONFLICT (ErrorBody EMAIL_EXISTS ''Email already in use'')
   \<and> db (snd (register_POST anySyntax worldAnn ''ip'' 0 0 bodyDup ''h9'' ''v9'' 5 ''u2'' 5))
       = db worldAnn"
    by (rule t) (intro conjI h1 h2 h3)
  show ?thesis
    by (intro conjI h1 h2 h3 conjunct1 [OF c] conjunct2 [OF c])
qed

text \<open>
  Ann is stored under \<^verbatim>\<open>a@x.com\<close>. \<^verbatim>\<open>createUser\<close> with the email \<^verbatim>\<open>A@x.com\<close>
  does not fail: it adds a second record and re-points the email index.
\<close>

theorem createUser_duplicate_counterexample:
  "users storeAnn ''u1'' = Some ann \<and> email ann = toLowerCase (c_email dupInput)
   \<and> emailIndex storeAnn (toLowerCase (c_email dupInput)) = Some ''u1''
   \<and> \<not> isl (createUser storeAnn ''u2'' 5 dupInput)
   \<and> users (snd (projr (createUser storeAnn ''u2'' 5 dupInput))) ''u2'' \<noteq> users storeAnn ''u2''
   \<and> emailIndex (snd (projr (createUser storeAnn ''u2'' 5 dupInput)))
        (toLowerCase (c_email dupInput)) = Some ''u2''"
  by (simp add: createUser_def Let_def dupInput_def lower_examples storeAnn_def ann_def)

end
